theory Spec2Isabelle
  imports
    Complex_Main
    "HOL-Library.AList"
    "HOL-Library.Char_ord"
    "HOL-Library.List_Lexorder"
    "HOL-Library.Product_Lexorder"
begin

section \<open>Conventions of the embedding\<close>

text \<open>
  The estimator is one Python module, \<^verbatim>\<open>app.py\<close>. Its engine consists of the
  function \<^verbatim>\<open>build_boq\<close> with the nested resolver \<^verbatim>\<open>find_match\<close>, the cost
  roll-up of the projection page and the funding loop of the affordability page.

  \<^item> A Python \<^verbatim>\<open>dict\<close> is an association list in insertion order. Assigning to a
    key that is present replaces the value and keeps the position, assigning to a new key
    appends: this is \<^const>\<open>AList.update\<close>. Reading is \<^const>\<open>map_of\<close>.
  \<^item> A data frame is the list of its rows, a row is a record. A cell that pandas treats
    as null is \<open>None\<close> where the code can meet one (the unit and the phase of a row).
  \<^item> Python floats are idealised as real numbers: rounding and overflow are not
    modelled. The funding loop stores \<^verbatim>\<open>float("inf")\<close>, so the months of the schedule
    range over the reals extended by the two infinities and NaN.
  \<^item> Strings are lists of 8-bit characters; \<^verbatim>\<open>str.lower\<close> is modelled on the ASCII
    letters and leaves every other character as it is.
\<close>

section \<open>Strings\<close>

definition lower_char :: "char \<Rightarrow> char" where
  "lower_char c =
     (case map_of (zip ''ABCDEFGHIJKLMNOPQRSTUVWXYZ'' ''abcdefghijklmnopqrstuvwxyz'') c of
        None \<Rightarrow> c
      | Some d \<Rightarrow> d)"

definition lower :: "string \<Rightarrow> string" where
  "lower s = map lower_char s"

text \<open>\<^verbatim>\<open>sub in s\<close> on strings: \<open>sub\<close> occurs in \<open>s\<close> as a contiguous block.\<close>

fun starts_with :: "string \<Rightarrow> string \<Rightarrow> bool" where
  "starts_with s [] = True"
| "starts_with [] (c # sub) = False"
| "starts_with (d # s) (c # sub) = (d = c \<and> starts_with s sub)"

fun contains :: "string \<Rightarrow> string \<Rightarrow> bool" where
  "contains [] sub = (sub = [])"
| "contains (c # cs) sub = (starts_with (c # cs) sub \<or> contains cs sub)"

section \<open>Quantity resolver\<close>

definition FIXTURE_ITEM_MAP :: "(string \<times> string) list" where
  "FIXTURE_ITEM_MAP =
     [(''Internal door'', ''Internal door (each)''),
      (''Window (each)'', ''Window (each)''),
      (''Light fixture'', ''Light fixture (each)''),
      (''Toilet (WC) (each)'', ''Toilet (WC) (each)''),
      (''Wash basin (each)'', ''Wash basin (each)''),
      (''Shower set (each)'', ''Shower set (each)''),
      (''Kitchen sink (each)'', ''Kitchen sink (each)''),
      (''Kitchen cabinet (per lm)'', ''Kitchen cabinet (per lm)''),
      (''Gate (each)'', ''Gate (each)'')]"

text \<open>
  \<^verbatim>\<open>item_lookup = {s.lower(): s for s in mat["item"].tolist()}\<close>: a later item with
  the same lowercased name replaces the value stored by an earlier one.
\<close>

definition item_lookup :: "string list \<Rightarrow> (string \<times> string) list" where
  "item_lookup items = fold (\<lambda>s m. AList.update (lower s) s m) items []"

text \<open>
  \<^verbatim>\<open>find_match(key)\<close>. The test \<^verbatim>\<open>if mapped and ...\<close> also asks that the alias is a
  non-empty string. The result \<open>None\<close> is Python's \<^verbatim>\<open>None\<close>.
\<close>

definition find_match :: "(string \<times> string) list \<Rightarrow> string \<Rightarrow> string option" where
  "find_match lookup key =
     (case (case map_of FIXTURE_ITEM_MAP key of
              None \<Rightarrow> None
            | Some mapped \<Rightarrow> if mapped \<noteq> [] then map_of lookup (lower mapped) else None) of
        Some s \<Rightarrow> Some s
      | None \<Rightarrow>
          (case map_of lookup (lower key) of
             Some s \<Rightarrow> Some s
           | None \<Rightarrow>
               (case find (\<lambda>(k, s). contains k (lower key)) lookup of
                  None \<Rightarrow> None
                | Some (k, s) \<Rightarrow> Some s)))"

text \<open>
  The resolver as the specification words it, over the catalog's item names in catalog
  order: alias first, then the label itself, then the first name containing the label.
\<close>

definition resolve_alias :: "string list \<Rightarrow> string \<Rightarrow> string option" where
  "resolve_alias items label =
     (case map_of FIXTURE_ITEM_MAP label of
        None \<Rightarrow> None
      | Some a \<Rightarrow> find (\<lambda>c. lower c = lower a) items)"

definition resolve_spec :: "string list \<Rightarrow> string \<Rightarrow> string option" where
  "resolve_spec items label =
     (case resolve_alias items label of
        Some c \<Rightarrow> Some c
      | None \<Rightarrow>
          (case find (\<lambda>c. lower c = lower label) items of
             Some c \<Rightarrow> Some c
           | None \<Rightarrow> find (\<lambda>c. contains (lower c) (lower label)) items))"

section \<open>Catalog, room templates and BOQ rows\<close>

text \<open>
  A cell of the materials data frame as \<^verbatim>\<open>pd.to_numeric(..., errors="coerce")\<close> sees
  it: a number, or something that does not parse as one.
\<close>

datatype cell = Numeric real | Malformed

text \<open>
  The unit and the phase of a catalog row are strings or null (\<^verbatim>\<open>None\<close>, \<^verbatim>\<open>NaN\<close>, a
  cell left empty in the editor or the CSV file): \<open>None\<close> is the null cell.
\<close>

record material =
  m_item :: string
  m_unit :: "string option"
  m_price :: cell
  m_phase :: "string option"
  m_consumption_per_m2 :: cell

text \<open>A row of the working copy \<^verbatim>\<open>mat\<close>, whose two numeric columns hold floats.\<close>

record scaled_material =
  s_item :: string
  s_unit :: "string option"
  s_price :: real
  s_phase :: "string option"
  s_consumption_per_m2 :: real

text \<open>
  A room template is a dictionary read with \<^verbatim>\<open>.get("area_m2", 0.0)\<close> and
  \<^verbatim>\<open>.get("fixtures", {})\<close>: either key may be missing.
\<close>

record template =
  area_m2 :: "real option"
  fixtures :: "(string \<times> real) list option"

record boq_row =
  item :: string
  unit :: "string option"
  total_qty :: real
  unit_price :: real
  total_cost :: real
  phase :: "string option"

section \<open>BOQ builder\<close>

definition to_numeric :: "cell \<Rightarrow> real option" where
  "to_numeric c = (case c of Numeric v \<Rightarrow> Some v | Malformed \<Rightarrow> None)"

definition fillna :: "real \<Rightarrow> real option \<Rightarrow> real" where
  "fillna d x = (case x of None \<Rightarrow> d | Some v \<Rightarrow> v)"

text \<open>
  The first step of \<^verbatim>\<open>build_boq\<close>: the price column is coerced and multiplied by
  the location multiplier, the consumption column by the quality multiplier.
\<close>

definition scale_row :: "real \<Rightarrow> real \<Rightarrow> material \<Rightarrow> scaled_material" where
  "scale_row quality_multiplier location_multiplier r =
     \<lparr>s_item = m_item r,
      s_unit = m_unit r,
      s_price = fillna 0 (to_numeric (m_price r)) * location_multiplier,
      s_phase = m_phase r,
      s_consumption_per_m2 =
        fillna 0 (to_numeric (m_consumption_per_m2 r)) * quality_multiplier\<rparr>"

definition scale_materials :: "real \<Rightarrow> real \<Rightarrow> material list \<Rightarrow> scaled_material list" where
  "scale_materials quality_multiplier location_multiplier materials_df =
     map (scale_row quality_multiplier location_multiplier) materials_df"

definition room_area :: "(string \<times> template) list \<Rightarrow> string \<Rightarrow> real" where
  "room_area templates room =
     (case map_of templates room of
        None \<Rightarrow> 0
      | Some tpl \<Rightarrow> (case area_m2 tpl of None \<Rightarrow> 0 | Some a \<Rightarrow> a))"

definition room_fixtures :: "(string \<times> template) list \<Rightarrow> string \<Rightarrow> (string \<times> real) list" where
  "room_fixtures templates room =
     (case map_of templates room of
        None \<Rightarrow> []
      | Some tpl \<Rightarrow> (case fixtures tpl of None \<Rightarrow> [] | Some fs \<Rightarrow> fs))"

definition total_area :: "(string \<times> int) list \<Rightarrow> (string \<times> template) list \<Rightarrow> real" where
  "total_area counts templates =
     fold (\<lambda>(room, cnt) acc. acc + real_of_int cnt * room_area templates room) counts 0"

definition seed_qty_map :: "scaled_material list \<Rightarrow> real \<Rightarrow> (string \<times> real) list" where
  "seed_qty_map mat area =
     fold (\<lambda>row m. AList.update (s_item row) (s_consumption_per_m2 row * area) m) mat []"

definition qty_get :: "(string \<times> real) list \<Rightarrow> string \<Rightarrow> real" where
  "qty_get m k = (case map_of m k of None \<Rightarrow> 0 | Some v \<Rightarrow> v)"

text \<open>\<^verbatim>\<open>qty_map[k] = qty_map.get(k, 0.0) + v\<close>\<close>

definition add_qty :: "string \<Rightarrow> real \<Rightarrow> (string \<times> real) list \<Rightarrow> (string \<times> real) list" where
  "add_qty k v m = AList.update k (qty_get m k + v) m"

text \<open>
  The key a fixture adds to. \<^verbatim>\<open>if matched:\<close> is false for \<^verbatim>\<open>None\<close> and for the
  empty string, and then the placeholder name is used.
\<close>

definition fixture_key :: "(string \<times> string) list \<Rightarrow> string \<Rightarrow> string" where
  "fixture_key lookup fk =
     (case find_match lookup fk of
        None \<Rightarrow> fk @ '' (user)''
      | Some matched \<Rightarrow> if matched \<noteq> [] then matched else fk @ '' (user)'')"

definition fixture_step ::
  "(string \<times> string) list \<Rightarrow> int \<Rightarrow> string \<times> real \<Rightarrow> (string \<times> real) list \<Rightarrow> (string \<times> real) list"
where
  "fixture_step lookup cnt = (\<lambda>(fk, fq) m.
     if fq \<le> 0 then m else add_qty (fixture_key lookup fk) (fq * real_of_int cnt) m)"

definition room_step ::
  "(string \<times> string) list \<Rightarrow> (string \<times> template) list \<Rightarrow> string \<times> int \<Rightarrow>
   (string \<times> real) list \<Rightarrow> (string \<times> real) list"
where
  "room_step lookup templates = (\<lambda>(room, cnt) m.
     if cnt \<le> 0 then m else fold (fixture_step lookup cnt) (room_fixtures templates room) m)"

definition make_row :: "scaled_material list \<Rightarrow> string \<times> real \<Rightarrow> boq_row" where
  "make_row mat = (\<lambda>(item_name, qty).
     case find (\<lambda>r. s_item r = item_name) mat of
       Some r \<Rightarrow>
         \<lparr>item = item_name, unit = s_unit r, total_qty = qty, unit_price = s_price r,
          total_cost = qty * s_price r, phase = s_phase r\<rparr>
     | None \<Rightarrow>
         \<lparr>item = item_name, unit = Some ''each'', total_qty = qty, unit_price = 0,
          total_cost = qty * 0, phase = Some ''Misc''\<rparr>)"

text \<open>
  \<^verbatim>\<open>groupby(["item","unit","unit_price","phase"], as_index=False).agg(sum)\<close> with the
  defaults \<^verbatim>\<open>sort=True\<close> and \<^verbatim>\<open>dropna=True\<close>: a row whose unit or phase is null belongs
  to no group and is dropped; there is one row per distinct key of the other rows, keys
  in ascending order, the two other columns summed.
\<close>

definition row_key :: "boq_row \<Rightarrow> (string \<times> string \<times> real \<times> string) option" where
  "row_key r =
     (case unit r of
        None \<Rightarrow> None
      | Some u \<Rightarrow> (case phase r of None \<Rightarrow> None | Some ph \<Rightarrow> Some (item r, u, unit_price r, ph)))"

definition group_row :: "boq_row list \<Rightarrow> string \<times> string \<times> real \<times> string \<Rightarrow> boq_row" where
  "group_row rows = (\<lambda>(i, u, p, ph).
     \<lparr>item = i, unit = Some u,
      total_qty = sum_list (map total_qty (filter (\<lambda>r. row_key r = Some (i, u, p, ph)) rows)),
      unit_price = p,
      total_cost = sum_list (map total_cost (filter (\<lambda>r. row_key r = Some (i, u, p, ph)) rows)),
      phase = Some ph\<rparr>)"

definition groupby_agg :: "boq_row list \<Rightarrow> boq_row list" where
  "groupby_agg rows = map (group_row rows) (sort (remdups (List.map_filter row_key rows)))"

definition qty_map_of ::
  "(string \<times> int) list \<Rightarrow> (string \<times> template) list \<Rightarrow> scaled_material list \<Rightarrow>
   (string \<times> real) list"
where
  "qty_map_of counts templates mat =
     fold (room_step (item_lookup (map s_item mat)) templates) counts
       (seed_qty_map mat (total_area counts templates))"

definition build_boq ::
  "(string \<times> int) list \<Rightarrow> (string \<times> template) list \<Rightarrow> material list \<Rightarrow> real \<Rightarrow> real \<Rightarrow>
   boq_row list"
where
  "build_boq counts templates materials_df quality_multiplier location_multiplier =
     (let mat = scale_materials quality_multiplier location_multiplier materials_df;
          rows = map (make_row mat) (qty_map_of counts templates mat)
      in if rows = [] then [] else groupby_agg rows)"

text \<open>
  The builder on a data frame as it is loaded. An item cell need not be a string:
  \<^verbatim>\<open>load_materials_db\<close> fills a missing column with the number 0, and an empty cell is
  \<^verbatim>\<open>NaN\<close>. The comprehension that builds \<^verbatim>\<open>item_lookup\<close> calls \<^verbatim>\<open>s.lower()\<close> on every
  item and raises \<^verbatim>\<open>AttributeError\<close> at one that is not a string. With integer counts
  and numeric areas and fixture quantities no other statement of the function raises.
\<close>

datatype py_error = AttributeError

datatype item_cell = Text string | NonText

record frame_row =
  fr_item :: item_cell
  fr_unit :: "string option"
  fr_price :: cell
  fr_phase :: "string option"
  fr_consumption_per_m2 :: cell

fun text_rows :: "frame_row list \<Rightarrow> py_error + material list" where
  "text_rows [] = Inr []"
| "text_rows (r # rs) =
     (case fr_item r of
        NonText \<Rightarrow> Inl AttributeError
      | Text s \<Rightarrow>
          (case text_rows rs of
             Inl e \<Rightarrow> Inl e
           | Inr ms \<Rightarrow>
               Inr (\<lparr>m_item = s, m_unit = fr_unit r, m_price = fr_price r, m_phase = fr_phase r,
                     m_consumption_per_m2 = fr_consumption_per_m2 r\<rparr> # ms)))"

definition build_boq_frame ::
  "(string \<times> int) list \<Rightarrow> (string \<times> template) list \<Rightarrow> frame_row list \<Rightarrow> real \<Rightarrow> real \<Rightarrow>
   py_error + boq_row list"
where
  "build_boq_frame counts templates frame quality_multiplier location_multiplier =
     (case text_rows frame of
        Inl e \<Rightarrow> Inl e
      | Inr materials_df \<Rightarrow>
          Inr (build_boq counts templates materials_df quality_multiplier location_multiplier))"

section \<open>Cost roll-up\<close>

definition base_total :: "boq_row list \<Rightarrow> real" where
  "base_total boq = sum_list (map total_cost boq)"

definition grand_total :: "boq_row list \<Rightarrow> real \<Rightarrow> real \<Rightarrow> real \<Rightarrow> real" where
  "grand_total boq extra_margin professional_fees contingency =
     (let extra_cost = base_total boq * extra_margin;
          pro_cost = base_total boq * professional_fees;
          cont_cost = base_total boq * contingency
      in base_total boq + extra_cost + pro_cost + cont_cost)"

section \<open>Affordability scheduler\<close>

text \<open>
  The values a month can take: a real number, \<^verbatim>\<open>inf\<close>, \<^verbatim>\<open>-inf\<close> or \<^verbatim>\<open>nan\<close>,
  with the arithmetic of IEEE floats on the three special values.
\<close>

datatype pyfloat = Fin real | PInf | NInf | NaN

fun fadd :: "pyfloat \<Rightarrow> pyfloat \<Rightarrow> pyfloat" where
  "fadd (Fin a) (Fin b) = Fin (a + b)"
| "fadd (Fin a) PInf = PInf"
| "fadd (Fin a) NInf = NInf"
| "fadd PInf (Fin b) = PInf"
| "fadd PInf PInf = PInf"
| "fadd PInf NInf = NaN"
| "fadd NInf (Fin b) = NInf"
| "fadd NInf PInf = NaN"
| "fadd NInf NInf = NInf"
| "fadd NaN y = NaN"
| "fadd x NaN = NaN"

text \<open>A finite float times a float.\<close>

fun fscale :: "real \<Rightarrow> pyfloat \<Rightarrow> pyfloat" where
  "fscale a (Fin b) = Fin (a * b)"
| "fscale a PInf = (if 0 < a then PInf else if a < 0 then NInf else NaN)"
| "fscale a NInf = (if 0 < a then NInf else if a < 0 then PInf else NaN)"
| "fscale a NaN = NaN"

text \<open>
  A float divided by a positive finite float. The loop divides by \<^verbatim>\<open>12.0\<close> and,
  behind the test \<^verbatim>\<open>monthly_savings > 0\<close>, by the monthly savings.
\<close>

fun fdiv :: "pyfloat \<Rightarrow> real \<Rightarrow> pyfloat" where
  "fdiv (Fin a) d = Fin (a / d)"
| "fdiv PInf d = PInf"
| "fdiv NInf d = NInf"
| "fdiv NaN d = NaN"

text \<open>
  A positive finite base to a float power. The base of the loop is
  \<^verbatim>\<open>1 + inflation_pct/100.0\<close>, and the inflation widget has \<^verbatim>\<open>min_value=0.0\<close>.
\<close>

fun fpow :: "real \<Rightarrow> pyfloat \<Rightarrow> pyfloat" where
  "fpow b (Fin y) = Fin (b powr y)"
| "fpow b PInf = (if 1 < b then PInf else if b = 1 then Fin 1 else Fin 0)"
| "fpow b NInf = (if 1 < b then Fin 0 else if b = 1 then Fin 1 else PInf)"
| "fpow b NaN = (if b = 1 then Fin 1 else NaN)"

text \<open>\<^verbatim>\<open>x <= y\<close> on floats; every comparison with NaN is false.\<close>

fun fle :: "pyfloat \<Rightarrow> pyfloat \<Rightarrow> bool" where
  "fle (Fin a) (Fin b) = (a \<le> b)"
| "fle (Fin a) PInf = True"
| "fle (Fin a) NInf = False"
| "fle PInf (Fin b) = False"
| "fle PInf PInf = True"
| "fle PInf NInf = False"
| "fle NInf (Fin b) = True"
| "fle NInf PInf = True"
| "fle NInf NInf = True"
| "fle NaN y = False"
| "fle x NaN = False"

record funding_entry =
  f_phase :: string
  f_base :: real
  f_after_upfront :: real
  f_inflated :: pyfloat
  f_months :: pyfloat
  f_start :: pyfloat
  f_end :: pyfloat

text \<open>The two variables the loop carries from one phase to the next.\<close>

record loop_state =
  remaining_upfront :: real
  cum_month :: pyfloat

text \<open>
  The upfront branch of the loop body: the pair of \<^verbatim>\<open>base_cost_after\<close> and the new
  \<^verbatim>\<open>remaining_upfront\<close>.
\<close>

definition apply_upfront :: "real \<Rightarrow> real \<Rightarrow> real \<times> real" where
  "apply_upfront remaining base_cost =
     (if 0 < remaining then
        (let applied = min remaining base_cost
         in (max 0 (base_cost - applied), remaining - applied))
      else (base_cost, remaining))"

definition phase_cost :: "(string \<times> real) list \<Rightarrow> string \<Rightarrow> real" where
  "phase_cost phase_tot ph = (case map_of phase_tot ph of None \<Rightarrow> 0 | Some c \<Rightarrow> c)"

text \<open>One pass through the loop body: the entry appended and the state after it.\<close>

definition phase_iter ::
  "(string \<times> real) list \<Rightarrow> real \<Rightarrow> real \<Rightarrow> loop_state \<Rightarrow> string \<Rightarrow> funding_entry \<times> loop_state"
where
  "phase_iter phase_tot monthly_savings inflation_pct st ph =
     (let base_cost = phase_cost phase_tot ph;
          (base_cost_after, remaining) = apply_upfront (remaining_upfront st) base_cost;
          years_until_start = fdiv (cum_month st) 12;
          infl_factor = fpow (1 + inflation_pct / 100) years_until_start;
          inflated = fscale base_cost_after infl_factor;
          months_needed = (if 0 < monthly_savings then fdiv inflated monthly_savings else PInf);
          start = cum_month st;
          ending = fadd start months_needed
      in (\<lparr>f_phase = ph, f_base = base_cost, f_after_upfront = base_cost_after,
           f_inflated = inflated, f_months = months_needed, f_start = start,
           f_end = ending\<rparr>,
          \<lparr>remaining_upfront = remaining, cum_month = ending\<rparr>))"

fun funding_loop ::
  "(string \<times> real) list \<Rightarrow> real \<Rightarrow> real \<Rightarrow> loop_state \<Rightarrow> string list \<Rightarrow>
   (funding_entry \<times> loop_state) list"
where
  "funding_loop phase_tot monthly_savings inflation_pct st [] = []"
| "funding_loop phase_tot monthly_savings inflation_pct st (ph # phs) =
     (let (e, st') = phase_iter phase_tot monthly_savings inflation_pct st ph
      in (e, st') # funding_loop phase_tot monthly_savings inflation_pct st' phs)"

text \<open>An empty selection of phases falls back to all phases, in their stored order.\<close>

definition build_order :: "(string \<times> real) list \<Rightarrow> string list \<Rightarrow> string list" where
  "build_order phase_tot phase_order =
     (if phase_order = [] then map fst phase_tot else phase_order)"

definition run_schedule ::
  "(string \<times> real) list \<Rightarrow> string list \<Rightarrow> real \<Rightarrow> real \<Rightarrow> real \<Rightarrow>
   (funding_entry \<times> loop_state) list"
where
  "run_schedule phase_tot phase_order one_time monthly_savings inflation_pct =
     funding_loop phase_tot monthly_savings inflation_pct
       \<lparr>remaining_upfront = one_time, cum_month = Fin 0\<rparr>
       (build_order phase_tot phase_order)"

text \<open>The list \<^verbatim>\<open>results\<close> after the loop.\<close>

definition schedule ::
  "(string \<times> real) list \<Rightarrow> string list \<Rightarrow> real \<Rightarrow> real \<Rightarrow> real \<Rightarrow> funding_entry list"
where
  "schedule phase_tot phase_order one_time monthly_savings inflation_pct =
     map fst (run_schedule phase_tot phase_order one_time monthly_savings inflation_pct)"

text \<open>The value of \<^verbatim>\<open>remaining_upfront\<close> at the end of each pass.\<close>

definition upfront_trace ::
  "(string \<times> real) list \<Rightarrow> string list \<Rightarrow> real \<Rightarrow> real \<Rightarrow> real \<Rightarrow> real list"
where
  "upfront_trace phase_tot phase_order one_time monthly_savings inflation_pct =
     map (\<lambda>p. remaining_upfront (snd p))
       (run_schedule phase_tot phase_order one_time monthly_savings inflation_pct)"

section \<open>Predicates and sample data used in the statements\<close>

definition nonneg_cell :: "cell \<Rightarrow> bool" where
  "nonneg_cell c = (case c of Numeric v \<Rightarrow> 0 \<le> v | Malformed \<Rightarrow> True)"

text \<open>A catalog row with a negative price and a consumption that is not a number.\<close>

definition cement_bad :: material where
  "cement_bad = \<lparr>m_item = ''Cement'', m_unit = Some ''bag'', m_price = Numeric (- 5),
     m_phase = Some ''Foundation'', m_consumption_per_m2 = Malformed\<rparr>"

text \<open>\<^verbatim>\<open>np.isfinite\<close>\<close>

definition finite_month :: "pyfloat \<Rightarrow> bool" where
  "finite_month x = (case x of Fin a \<Rightarrow> True | PInf \<Rightarrow> False | NInf \<Rightarrow> False | NaN \<Rightarrow> False)"

text \<open>The phases of the schedule have non-negative base costs.\<close>

definition nonneg_costs :: "(string \<times> real) list \<Rightarrow> string list \<Rightarrow> bool" where
  "nonneg_costs phase_tot phase_order =
     list_all (\<lambda>ph. 0 \<le> phase_cost phase_tot ph) (build_order phase_tot phase_order)"

text \<open>The sum of the base costs of the phases of the schedule.\<close>

definition total_base_cost :: "(string \<times> real) list \<Rightarrow> string list \<Rightarrow> real" where
  "total_base_cost phase_tot phase_order =
     sum_list (map (phase_cost phase_tot) (build_order phase_tot phase_order))"

definition two_phases :: "(string \<times> real) list" where
  "two_phases = [(''Foundation'', 1200), (''Roofing'', 800)]"

text \<open>Every room count doubled, and a BOQ row with its quantity and cost doubled.\<close>

definition double_counts :: "(string \<times> int) list \<Rightarrow> (string \<times> int) list" where
  "double_counts counts = map (\<lambda>(room, cnt). (room, 2 * cnt)) counts"

definition double_qty :: "(string \<times> real) list \<Rightarrow> (string \<times> real) list" where
  "double_qty m = map (\<lambda>(k, v). (k, 2 * v)) m"

definition double_row :: "boq_row \<Rightarrow> boq_row" where
  "double_row r = r\<lparr>total_qty := 2 * total_qty r, total_cost := 2 * total_cost r\<rparr>"





definition cement :: material where
  "cement = \<lparr>m_item = ''Cement (50kg bag)'', m_unit = Some ''bag'', m_price = Numeric 125,
     m_phase = Some ''Foundation'', m_consumption_per_m2 = Numeric (4 / 10)\<rparr>"

text \<open>A catalog row whose unit cell is empty, and two rows of a loaded frame.\<close>

definition sand_no_unit :: material where
  "sand_no_unit = \<lparr>m_item = ''Sand'', m_unit = None, m_price = Numeric 150,
     m_phase = Some ''Foundation'', m_consumption_per_m2 = Numeric (3 / 100)\<rparr>"

definition sand_frame_row :: frame_row where
  "sand_frame_row = \<lparr>fr_item = Text ''Sand'', fr_unit = Some ''m3'', fr_price = Numeric 150,
     fr_phase = Some ''Foundation'', fr_consumption_per_m2 = Numeric (3 / 100)\<rparr>"

definition unnamed_frame_row :: frame_row where
  "unnamed_frame_row = \<lparr>fr_item = NonText, fr_unit = Some ''bag'', fr_price = Numeric 125,
     fr_phase = Some ''Foundation'', fr_consumption_per_m2 = Numeric (4 / 10)\<rparr>"

definition bedroom :: "string \<times> template" where
  "bedroom = (''Bedroom'', \<lparr>area_m2 = Some 12, fixtures = Some [(''Jacuzzi'', 1)]\<rparr>)"

text \<open>
  What the fixtures labelled \<open>label\<close> add up to: the fixture quantity times the room
  count, over the fixtures with a positive quantity in the rooms with a positive count.
\<close>

definition fixture_contribution :: "string \<Rightarrow> int \<Rightarrow> (string \<times> real) list \<Rightarrow> real" where
  "fixture_contribution label cnt fs =
     (\<Sum>(fk, fq)\<leftarrow>fs. if fk = label \<and> 0 < fq then fq * real_of_int cnt else 0)"

definition placeholder_qty ::
  "(string \<times> int) list \<Rightarrow> (string \<times> template) list \<Rightarrow> string \<Rightarrow> real"
where
  "placeholder_qty counts templates label =
     (\<Sum>(room, cnt)\<leftarrow>counts.
        if 0 < cnt then fixture_contribution label cnt (room_fixtures templates room) else 0)"

text \<open>
  The label is on a fixture with a positive quantity in the template of a room with a
  positive count.
\<close>

definition label_counted ::
  "(string \<times> int) list \<Rightarrow> (string \<times> template) list \<Rightarrow> string \<Rightarrow> bool"
where
  "label_counted counts templates label =
     list_ex (\<lambda>(room, cnt). 0 < cnt \<and>
        list_ex (\<lambda>(fk, fq). fk = label \<and> 0 < fq) (room_fixtures templates room)) counts"

definition placeholder_row :: "string \<Rightarrow> real \<Rightarrow> boq_row" where
  "placeholder_row label qty =
     \<lparr>item = label @ '' (user)'', unit = Some ''each'', total_qty = qty, unit_price = 0,
      total_cost = 0, phase = Some ''Misc''\<rparr>"

definition spare_room :: "string \<times> template" where
  "spare_room = (''Spare'', \<lparr>area_m2 = Some 8, fixtures = Some [(''Jacuzzi'', 0)]\<rparr>)"

section \<open>Properties of the resolver\<close>

lemma update_fresh:
  "k \<notin> fst ` set m \<Longrightarrow> AList.update k v m = m @ [(k, v)]"
  by (induction m) auto

lemma item_lookup_fold:
  "distinct (map fst acc @ map lower items) \<Longrightarrow>
   fold (\<lambda>s m. AList.update (lower s) s m) items acc = acc @ map (\<lambda>c. (lower c, c)) items"
proof (induction items arbitrary: acc)
  case Nil
  then show ?case by simp
next
  case (Cons c cs)
  from Cons.prems have fresh: "lower c \<notin> fst ` set acc"
    by auto
  from Cons.prems have "distinct (map fst (acc @ [(lower c, c)]) @ map lower cs)"
    by auto
  from Cons.IH [OF this] fresh show ?case
    by (simp add: update_fresh)
qed

lemma item_lookup_distinct:
  "distinct (map lower items) \<Longrightarrow> item_lookup items = map (\<lambda>c. (lower c, c)) items"
  using item_lookup_fold [of "[]" items] by (simp add: item_lookup_def)

lemma map_of_lowered:
  "map_of (map (\<lambda>c. (lower c, c)) items) l = find (\<lambda>c. lower c = l) items"
  by (induction items) auto

lemma find_lowered:
  "find (\<lambda>(k, s). P k) (map (\<lambda>c. (lower c, c)) items) =
   map_option (\<lambda>c. (lower c, c)) (find (\<lambda>c. P (lower c)) items)"
  by (induction items) auto

lemma alias_nonempty: "map_of FIXTURE_ITEM_MAP key = Some a \<Longrightarrow> a \<noteq> []"
  by (auto simp: FIXTURE_ITEM_MAP_def split: if_splits)

text \<open>
  Claim C1, as amended. For every fixture label and every catalog in which no two item
  names are equal up to letter case, the resolver follows the priority order of the
  specification: the catalog item matching the alias of the label case-insensitively,
  else the catalog item matching the label itself case-insensitively, else the first
  catalog item, in catalog order, whose lowercased name contains the lowercased label,
  else no match.
\<close>

theorem find_match_priority:
  assumes "distinct (map lower items)"
  shows "find_match (item_lookup items) label = resolve_spec items label"
proof -
  have lk: "item_lookup items = map (\<lambda>c. (lower c, c)) items"
    using assms by (rule item_lookup_distinct)
  show ?thesis
    unfolding find_match_def resolve_spec_def resolve_alias_def lk map_of_lowered find_lowered
    by (auto split: option.splits dest: alias_nonempty)
qed

theorem find_match_priority_witness:
  "distinct (map lower [''Window (each)'', ''Light fixture (each)'']) \<and>
   find_match (item_lookup [''Window (each)'', ''Light fixture (each)''])
     ''Light fixture'' = Some ''Light fixture (each)''"
  using find_match_priority [of "[''Window (each)'', ''Light fixture (each)'']" "''Light fixture''"]
  by (simp add: lower_def lower_char_def resolve_spec_def resolve_alias_def FIXTURE_ITEM_MAP_def)

text \<open>
  Claim C1 as stated fails on a catalog with two names that differ in letter case only:
  the substring search finds the key \<open>ab\<close>, under which the later item \<open>AB\<close> is stored,
  while the first catalog item whose lowercased name contains \<open>a\<close> is \<open>Ab\<close>.
\<close>

theorem find_match_first_counterexample:
  "find_match (item_lookup [''Ab'', ''AB'']) ''a'' = Some ''AB'' \<and>
   resolve_spec [''Ab'', ''AB''] ''a'' = Some ''Ab''"
  by (simp add: lower_def lower_char_def resolve_spec_def resolve_alias_def FIXTURE_ITEM_MAP_def
      find_match_def item_lookup_def)

section \<open>Properties of the first step of the BOQ builder\<close>

lemma scale_row_price:
  "s_price (scale_row q l r) = (case m_price r of Numeric v \<Rightarrow> v * l | Malformed \<Rightarrow> 0)"
  by (simp add: scale_row_def fillna_def to_numeric_def split: cell.split)

lemma scale_row_consumption:
  "s_consumption_per_m2 (scale_row q l r) =
     (case m_consumption_per_m2 r of Numeric v \<Rightarrow> v * q | Malformed \<Rightarrow> 0)"
  by (simp add: scale_row_def fillna_def to_numeric_def split: cell.split)

text \<open>
  Claim C3, as amended. The scaled catalog has one row for every catalog row, in the same
  order and with the same item. In each of them a price or consumption that is not a
  number has become 0, and a number, negative or not, has been multiplied by the
  location multiplier (price) or the quality multiplier (consumption). The scaled value
  is non-negative when the multiplier is non-negative and the source value is not a
  negative number.
\<close>

theorem scale_materials_coercion:
  "length (scale_materials q l materials_df) = length materials_df \<and>
   (\<forall>i < length materials_df.
      s_item (scale_materials q l materials_df ! i) = m_item (materials_df ! i) \<and>
      s_price (scale_materials q l materials_df ! i) =
        (case m_price (materials_df ! i) of Numeric v \<Rightarrow> v * l | Malformed \<Rightarrow> 0) \<and>
      s_consumption_per_m2 (scale_materials q l materials_df ! i) =
        (case m_consumption_per_m2 (materials_df ! i) of Numeric v \<Rightarrow> v * q | Malformed \<Rightarrow> 0) \<and>
      (0 \<le> l \<and> nonneg_cell (m_price (materials_df ! i)) \<longrightarrow>
         0 \<le> s_price (scale_materials q l materials_df ! i)) \<and>
      (0 \<le> q \<and> nonneg_cell (m_consumption_per_m2 (materials_df ! i)) \<longrightarrow>
         0 \<le> s_consumption_per_m2 (scale_materials q l materials_df ! i)))"
proof (intro conjI allI impI)
  show "length (scale_materials q l materials_df) = length materials_df"
    by (simp add: scale_materials_def)
next
  fix i assume i: "i < length materials_df"
  then have nth: "scale_materials q l materials_df ! i = scale_row q l (materials_df ! i)"
    by (simp add: scale_materials_def)
  show "s_item (scale_materials q l materials_df ! i) = m_item (materials_df ! i)"
    by (simp add: nth scale_row_def)
  show "s_price (scale_materials q l materials_df ! i) =
      (case m_price (materials_df ! i) of Numeric v \<Rightarrow> v * l | Malformed \<Rightarrow> 0)"
    by (simp add: nth scale_row_price)
  show "s_consumption_per_m2 (scale_materials q l materials_df ! i) =
      (case m_consumption_per_m2 (materials_df ! i) of Numeric v \<Rightarrow> v * q | Malformed \<Rightarrow> 0)"
    by (simp add: nth scale_row_consumption)
  show "0 \<le> s_price (scale_materials q l materials_df ! i)"
    if "0 \<le> l \<and> nonneg_cell (m_price (materials_df ! i))"
    using that by (auto simp: nth scale_row_price nonneg_cell_def split: cell.splits)
  show "0 \<le> s_consumption_per_m2 (scale_materials q l materials_df ! i)"
    if "0 \<le> q \<and> nonneg_cell (m_consumption_per_m2 (materials_df ! i))"
    using that by (auto simp: nth scale_row_consumption nonneg_cell_def split: cell.splits)
qed

theorem scale_materials_coercion_witness:
  "(1::nat) < length [cement_bad, cement] \<and> (0::real) \<le> 2 \<and>
   nonneg_cell (m_price ([cement_bad, cement] ! 1)) \<and>
   s_price (scale_materials 1 2 [cement_bad, cement] ! 0) = - 10 \<and>
   s_consumption_per_m2 (scale_materials 1 2 [cement_bad, cement] ! 0) = 0 \<and>
   s_price (scale_materials 1 2 [cement_bad, cement] ! 1) = 250 \<and>
   0 \<le> s_price (scale_materials 1 2 [cement_bad, cement] ! 1)"
proof -
  have n: "nonneg_cell (m_price ([cement_bad, cement] ! 1))"
    by (simp add: cement_def nonneg_cell_def)
  from scale_materials_coercion [of 1 2 "[cement_bad, cement]"]
  have all: "\<forall>i < length [cement_bad, cement].
      s_item (scale_materials 1 2 [cement_bad, cement] ! i) = m_item ([cement_bad, cement] ! i) \<and>
      s_price (scale_materials 1 2 [cement_bad, cement] ! i) =
        (case m_price ([cement_bad, cement] ! i) of Numeric v \<Rightarrow> v * 2 | Malformed \<Rightarrow> 0) \<and>
      s_consumption_per_m2 (scale_materials 1 2 [cement_bad, cement] ! i) =
        (case m_consumption_per_m2 ([cement_bad, cement] ! i) of
           Numeric v \<Rightarrow> v * 1 | Malformed \<Rightarrow> 0) \<and>
      (0 \<le> (2::real) \<and> nonneg_cell (m_price ([cement_bad, cement] ! i)) \<longrightarrow>
         0 \<le> s_price (scale_materials 1 2 [cement_bad, cement] ! i)) \<and>
      (0 \<le> (1::real) \<and> nonneg_cell (m_consumption_per_m2 ([cement_bad, cement] ! i)) \<longrightarrow>
         0 \<le> s_consumption_per_m2 (scale_materials 1 2 [cement_bad, cement] ! i))"
    by (rule conjunct2)
  from all [rule_format, of 0]
  have a: "s_price (scale_materials 1 2 [cement_bad, cement] ! 0) = - 10"
    "s_consumption_per_m2 (scale_materials 1 2 [cement_bad, cement] ! 0) = 0"
    by (simp_all add: cement_bad_def)
  from all [rule_format, of 1] n
  have b: "s_price (scale_materials 1 2 [cement_bad, cement] ! 1) = 250"
    "0 \<le> s_price (scale_materials 1 2 [cement_bad, cement] ! 1)"
    by (simp_all add: cement_def)
  from n a b show ?thesis by simp
qed

text \<open>
  Claim C3 as stated fails: a negative price is not coerced to 0. It is scaled and
  reaches the BOQ as a negative unit price.
\<close>

theorem scale_materials_negative_counterexample:
  "map s_price (scale_materials 1 1 [cement_bad]) = [- 5] \<and>
   map unit_price (build_boq [] [] [cement_bad] 1 1) = [- 5]"
  by (simp add: scale_materials_def scale_row_def cement_bad_def fillna_def to_numeric_def
      build_boq_def qty_map_of_def seed_qty_map_def total_area_def make_row_def groupby_agg_def
      group_row_def row_key_def)

section \<open>Properties of the cost roll-up\<close>

text \<open>
  Claim C4. The base total is the sum of the rows' costs, and the grand total is the base
  total times one plus the sum of the three percentages; a base total of 1000 with
  margin 0.10, fees 0.06 and contingency 0.10 gives 1260.
\<close>

theorem grand_total_additive:
  "base_total boq = sum_list (map total_cost boq) \<and>
   grand_total boq margin_pct fee_pct contingency_pct =
     base_total boq * (1 + margin_pct + fee_pct + contingency_pct) \<and>
   (base_total boq = 1000 \<longrightarrow> grand_total boq (10 / 100) (6 / 100) (10 / 100) = 1260)"
  by (simp add: grand_total_def base_total_def algebra_simps)

theorem grand_total_additive_witness:
  "base_total [\<lparr>item = ''Cement'', unit = Some ''bag'', total_qty = 8, unit_price = 125,
      total_cost = 1000, phase = Some ''Foundation''\<rparr>] = 1000 \<and>
   grand_total [\<lparr>item = ''Cement'', unit = Some ''bag'', total_qty = 8, unit_price = 125,
      total_cost = 1000, phase = Some ''Foundation''\<rparr>] (10 / 100) (6 / 100) (10 / 100) = 1260"
  using grand_total_additive [of "[\<lparr>item = ''Cement'', unit = Some ''bag'', total_qty = 8,
      unit_price = 125, total_cost = 1000, phase = Some ''Foundation''\<rparr>]" 0 0 0]
  by simp

section \<open>Properties of the affordability scheduler\<close>

lemma phase_iter_fields:
  "f_phase (fst (phase_iter pt ms infl st ph)) = ph"
  "f_base (fst (phase_iter pt ms infl st ph)) = phase_cost pt ph"
  "f_after_upfront (fst (phase_iter pt ms infl st ph)) =
     fst (apply_upfront (remaining_upfront st) (phase_cost pt ph))"
  "f_start (fst (phase_iter pt ms infl st ph)) = cum_month st"
  "f_months (fst (phase_iter pt ms infl st ph)) =
     (if 0 < ms
      then fdiv (fscale (fst (apply_upfront (remaining_upfront st) (phase_cost pt ph)))
             (fpow (1 + infl / 100) (fdiv (cum_month st) 12))) ms
      else PInf)"
  "f_end (fst (phase_iter pt ms infl st ph)) =
     fadd (f_start (fst (phase_iter pt ms infl st ph))) (f_months (fst (phase_iter pt ms infl st ph)))"
  "cum_month (snd (phase_iter pt ms infl st ph)) = f_end (fst (phase_iter pt ms infl st ph))"
  "remaining_upfront (snd (phase_iter pt ms infl st ph)) =
     snd (apply_upfront (remaining_upfront st) (phase_cost pt ph))"
  by (simp_all add: phase_iter_def Let_def split: prod.split)

lemma funding_loop_Cons:
  "funding_loop pt ms infl st (ph # phs) =
     phase_iter pt ms infl st ph # funding_loop pt ms infl (snd (phase_iter pt ms infl st ph)) phs"
  by (simp add: Let_def split: prod.split)

lemma funding_loop_length: "length (funding_loop pt ms infl st phs) = length phs"
  by (induction phs arbitrary: st) (simp_all add: funding_loop_Cons del: funding_loop.simps(2))

lemma funding_loop_head:
  "phs \<noteq> [] \<Longrightarrow> f_start (fst (funding_loop pt ms infl st phs ! 0)) = cum_month st"
  by (cases phs) (simp_all add: funding_loop_Cons phase_iter_fields del: funding_loop.simps(2))

lemma funding_loop_entry:
  "p \<in> set (funding_loop pt ms infl st phs) \<Longrightarrow>
     f_end (fst p) = fadd (f_start (fst p)) (f_months (fst p)) \<and> cum_month (snd p) = f_end (fst p)"
proof (induction phs arbitrary: st)
  case Nil
  then show ?case by simp
next
  case (Cons ph phs)
  then show ?case
    by (auto simp: funding_loop_Cons phase_iter_fields simp del: funding_loop.simps(2))
qed

lemma funding_loop_chain:
  "Suc i < length phs \<Longrightarrow>
     f_start (fst (funding_loop pt ms infl st phs ! Suc i)) =
     f_end (fst (funding_loop pt ms infl st phs ! i))"
proof (induction phs arbitrary: st i)
  case Nil
  then show ?case by simp
next
  case (Cons ph phs)
  show ?case
  proof (cases i)
    case 0
    with Cons.prems have "phs \<noteq> []" by auto
    with 0 show ?thesis
      using funding_loop_head [of phs pt ms infl "snd (phase_iter pt ms infl st ph)"]
      by (simp add: funding_loop_Cons phase_iter_fields del: funding_loop.simps(2))
  next
    case (Suc k)
    with Cons.prems have "Suc k < length phs" by simp
    from Cons.IH [OF this] Suc show ?thesis
      by (simp add: funding_loop_Cons del: funding_loop.simps(2))
  qed
qed

text \<open>
  Claim C5. The schedule has one entry per phase of the build order. The first entry
  starts at month 0, every later entry starts at the month the entry before it ends,
  and each entry ends at its start plus the months it needs.
\<close>

theorem schedule_chain:
  "length (schedule pt order one_time ms infl) = length (build_order pt order) \<and>
   (schedule pt order one_time ms infl \<noteq> [] \<longrightarrow>
      f_start (schedule pt order one_time ms infl ! 0) = Fin 0) \<and>
   (\<forall>i. 0 < i \<and> i < length (schedule pt order one_time ms infl) \<longrightarrow>
      f_start (schedule pt order one_time ms infl ! i) =
      f_end (schedule pt order one_time ms infl ! (i - 1))) \<and>
   (\<forall>i < length (schedule pt order one_time ms infl).
      f_end (schedule pt order one_time ms infl ! i) =
      fadd (f_start (schedule pt order one_time ms infl ! i))
           (f_months (schedule pt order one_time ms infl ! i)))"
proof -
  let ?st = "\<lparr>remaining_upfront = one_time, cum_month = Fin 0\<rparr>"
  let ?phs = "build_order pt order"
  let ?L = "funding_loop pt ms infl ?st ?phs"
  have len: "length ?L = length ?phs"
    by (rule funding_loop_length)
  have sch: "schedule pt order one_time ms infl = map fst ?L"
    by (simp add: schedule_def run_schedule_def)
  have first: "map fst ?L \<noteq> [] \<longrightarrow> f_start (map fst ?L ! 0) = Fin 0"
  proof
    assume "map fst ?L \<noteq> []"
    then have ne: "?phs \<noteq> []" using len by auto
    then have "0 < length ?L" using len by simp
    then have "map fst ?L ! 0 = fst (?L ! 0)" by (rule nth_map)
    with funding_loop_head [OF ne, of pt ms infl ?st] show "f_start (map fst ?L ! 0) = Fin 0"
      by simp
  qed
  have chain: "\<forall>i. 0 < i \<and> i < length (map fst ?L) \<longrightarrow>
      f_start (map fst ?L ! i) = f_end (map fst ?L ! (i - 1))"
  proof (intro allI impI)
    fix i assume i: "0 < i \<and> i < length (map fst ?L)"
    then obtain k where k: "i = Suc k" by (cases i) auto
    with i have "Suc k < length ?phs" using len by simp
    from funding_loop_chain [OF this, of pt ms infl ?st] i k
    show "f_start (map fst ?L ! i) = f_end (map fst ?L ! (i - 1))"
      by simp
  qed
  have ends: "\<forall>i < length (map fst ?L).
      f_end (map fst ?L ! i) = fadd (f_start (map fst ?L ! i)) (f_months (map fst ?L ! i))"
  proof (intro allI impI)
    fix i assume i: "i < length (map fst ?L)"
    then have "?L ! i \<in> set ?L" by simp
    from funding_loop_entry [OF this] i
    show "f_end (map fst ?L ! i) = fadd (f_start (map fst ?L ! i)) (f_months (map fst ?L ! i))"
      by simp
  qed
  from len first chain ends show ?thesis
    unfolding sch by simp
qed

theorem schedule_chain_witness:
  "schedule two_phases [] 0 400 0 \<noteq> [] \<and>
   (0::nat) < 1 \<and> 1 < length (schedule two_phases [] 0 400 0) \<and>
   f_start (schedule two_phases [] 0 400 0 ! 0) = Fin 0 \<and>
   f_start (schedule two_phases [] 0 400 0 ! 1) = f_end (schedule two_phases [] 0 400 0 ! 0) \<and>
   f_end (schedule two_phases [] 0 400 0 ! 1) = Fin 5"
proof -
  have len: "length (schedule two_phases [] 0 400 0) = 2"
    using schedule_chain [of two_phases "[]" 0 400 0]
    by (simp add: build_order_def two_phases_def)
  then have ne: "schedule two_phases [] 0 400 0 \<noteq> []"
    by auto
  have e1: "f_end (schedule two_phases [] 0 400 0 ! 1) = Fin 5"
    by (simp add: schedule_def run_schedule_def build_order_def two_phases_def phase_iter_def
        apply_upfront_def phase_cost_def Let_def)
  from schedule_chain [of two_phases "[]" 0 400 0] len ne e1 show ?thesis
    by auto
qed

lemma apply_upfront_covered: "0 \<le> b \<Longrightarrow> b \<le> r \<Longrightarrow> apply_upfront r b = (0, r - b)"
  by (auto simp: apply_upfront_def Let_def min_def max_def)

lemma apply_upfront_after_nonneg: "0 \<le> b \<Longrightarrow> 0 \<le> fst (apply_upfront r b)"
  by (simp add: apply_upfront_def Let_def)

lemma apply_upfront_remaining:
  "0 \<le> r \<Longrightarrow> 0 \<le> b \<Longrightarrow>
     0 \<le> snd (apply_upfront r b) \<and> snd (apply_upfront r b) \<le> r \<and>
     b - fst (apply_upfront r b) = r - snd (apply_upfront r b)"
  by (auto simp: apply_upfront_def Let_def min_def max_def)

lemma funding_loop_covered:
  assumes "0 < ms"
  shows "list_all (\<lambda>ph. 0 \<le> phase_cost pt ph) phs \<Longrightarrow>
     sum_list (map (phase_cost pt) phs) \<le> remaining_upfront st \<Longrightarrow>
     cum_month st = Fin c \<Longrightarrow>
     p \<in> set (funding_loop pt ms infl st phs) \<Longrightarrow> f_months (fst p) = Fin 0"
proof (induction phs arbitrary: st)
  case Nil
  then show ?case by simp
next
  case (Cons ph phs)
  let ?q = "phase_iter pt ms infl st ph"
  from Cons.prems have b0: "0 \<le> phase_cost pt ph" and rest: "list_all (\<lambda>ph. 0 \<le> phase_cost pt ph) phs"
    by simp_all
  from rest have "0 \<le> sum_list (map (phase_cost pt) phs)"
    by (induction phs) auto
  with Cons.prems have br: "phase_cost pt ph \<le> remaining_upfront st"
    by simp
  have au: "apply_upfront (remaining_upfront st) (phase_cost pt ph) =
      (0, remaining_upfront st - phase_cost pt ph)"
    using b0 br by (rule apply_upfront_covered)
  have m0: "f_months (fst ?q) = Fin 0"
    using assms Cons.prems(3) by (simp add: phase_iter_fields au)
  have cm: "cum_month (snd ?q) = Fin c"
    using assms Cons.prems(3) by (simp add: phase_iter_fields au)
  have ru: "sum_list (map (phase_cost pt) phs) \<le> remaining_upfront (snd ?q)"
    using Cons.prems(2) by (simp add: phase_iter_fields au)
  from Cons.prems(4) have "p = ?q \<or> p \<in> set (funding_loop pt ms infl (snd ?q) phs)"
    by (simp add: funding_loop_Cons del: funding_loop.simps(2))
  then show ?case
    using m0 Cons.IH [OF rest ru cm] by auto
qed

text \<open>
  Claim C6, as amended. When the monthly savings are positive, no phase of the build
  order has a negative base cost and the upfront cash is at least the sum of the base
  costs of these phases, every entry of the schedule needs 0 months.
\<close>

theorem upfront_covers_all:
  assumes "0 < ms"
    and "nonneg_costs pt order"
    and "total_base_cost pt order \<le> one_time"
  shows "\<forall>e \<in> set (schedule pt order one_time ms infl). f_months e = Fin 0"
proof
  fix e assume "e \<in> set (schedule pt order one_time ms infl)"
  then obtain p where p: "p \<in> set (funding_loop pt ms infl
      \<lparr>remaining_upfront = one_time, cum_month = Fin 0\<rparr> (build_order pt order))"
    and e: "e = fst p"
    by (auto simp: schedule_def run_schedule_def)
  from assms(2) have nn: "list_all (\<lambda>ph. 0 \<le> phase_cost pt ph) (build_order pt order)"
    by (simp add: nonneg_costs_def)
  from assms(3) have le: "sum_list (map (phase_cost pt) (build_order pt order)) \<le>
      remaining_upfront \<lparr>remaining_upfront = one_time, cum_month = Fin 0\<rparr>"
    by (simp add: total_base_cost_def)
  from funding_loop_covered [OF assms(1) nn le _ p, of 0] e show "f_months e = Fin 0"
    by simp
qed

theorem upfront_covers_all_witness:
  "(0::real) < 400 \<and> nonneg_costs two_phases [] \<and> total_base_cost two_phases [] \<le> 2500 \<and>
   map f_months (schedule two_phases [] 2500 400 10) = [Fin 0, Fin 0]"
proof -
  have h: "nonneg_costs two_phases []" "total_base_cost two_phases [] \<le> 2500"
    by (simp_all add: nonneg_costs_def total_base_cost_def build_order_def two_phases_def
        phase_cost_def)
  have "length (schedule two_phases [] 2500 400 10) = length (build_order two_phases [])"
    by (simp add: schedule_def run_schedule_def funding_loop_length)
  then have len: "length (schedule two_phases [] 2500 400 10) = 2"
    by (simp add: build_order_def two_phases_def)
  have "\<forall>e \<in> set (schedule two_phases [] 2500 400 10). f_months e = Fin 0"
    using upfront_covers_all [of 400 two_phases "[]" 2500 10] h by simp
  then have "map f_months (schedule two_phases [] 2500 400 10) =
      replicate (length (schedule two_phases [] 2500 400 10)) (Fin 0)"
    by (simp add: map_replicate_const [symmetric] cong: map_cong)
  with len h show ?thesis
    by (simp add: numeral_2_eq_2)
qed

text \<open>
  Claim C6 as stated fails when the monthly savings are 0: the loop then stores
  \<^verbatim>\<open>float("inf")\<close> as the months needed, whatever the upfront cash covers.
\<close>

theorem upfront_no_savings_counterexample:
  "total_base_cost two_phases [] \<le> 2000 \<and>
   map f_months (schedule two_phases [] 2000 0 0) = [PInf, PInf]"
  by (simp add: total_base_cost_def schedule_def run_schedule_def build_order_def two_phases_def
      phase_iter_def apply_upfront_def phase_cost_def Let_def)

text \<open>
  A negative base cost breaks the property as well: the upfront cash covers the sum of
  10 and -5, but not the first phase, which is paid for before the negative one.
\<close>

lemma upfront_negative_cost_example:
  "total_base_cost [(''Foundation'', 10), (''Roofing'', - 5)] [] \<le> 5 \<and>
   map f_months (schedule [(''Foundation'', 10), (''Roofing'', - 5)] [] 5 1 0) = [Fin 5, Fin (- 5)]"
  by (simp add: total_base_cost_def schedule_def run_schedule_def build_order_def
      phase_iter_def apply_upfront_def phase_cost_def Let_def)

lemma funding_loop_finite:
  assumes "0 < ms"
  shows "cum_month st = Fin c \<Longrightarrow> p \<in> set (funding_loop pt ms infl st phs) \<Longrightarrow>
     finite_month (f_start (fst p)) \<and> finite_month (f_end (fst p))"
proof (induction phs arbitrary: st c)
  case Nil
  then show ?case by simp
next
  case (Cons ph phs)
  let ?q = "phase_iter pt ms infl st ph"
  have q: "finite_month (f_start (fst ?q))" "\<exists>d. f_end (fst ?q) = Fin d"
    using assms Cons.prems(1) by (simp_all add: phase_iter_fields finite_month_def)
  then obtain d where d: "cum_month (snd ?q) = Fin d"
    by (auto simp: phase_iter_fields(7))
  from Cons.prems(2) have "p = ?q \<or> p \<in> set (funding_loop pt ms infl (snd ?q) phs)"
    by (simp add: funding_loop_Cons del: funding_loop.simps(2))
  then show ?case
    using q Cons.IH [OF d] by (auto simp: finite_month_def)
qed

lemma funding_loop_unfunded:
  assumes "\<not> 0 < ms"
  shows "cum_month st = Fin c \<or> cum_month st = PInf \<Longrightarrow>
     p \<in> set (funding_loop pt ms infl st phs) \<Longrightarrow> f_end (fst p) = PInf"
proof (induction phs arbitrary: st c)
  case Nil
  then show ?case by simp
next
  case (Cons ph phs)
  let ?q = "phase_iter pt ms infl st ph"
  have q: "f_end (fst ?q) = PInf"
    using assms Cons.prems(1) by (auto simp: phase_iter_fields)
  then have d: "cum_month (snd ?q) = Fin 0 \<or> cum_month (snd ?q) = PInf"
    by (simp add: phase_iter_fields(7))
  from Cons.prems(2) have "p = ?q \<or> p \<in> set (funding_loop pt ms infl (snd ?q) phs)"
    by (simp add: funding_loop_Cons del: funding_loop.simps(2))
  then show ?case
    using q Cons.IH [OF d] by auto
qed

lemma fle_refl_nonneg: "fle (Fin 0) x \<Longrightarrow> fle x x"
  by (cases x) simp_all

lemma funding_loop_monotone:
  "(0 < ms \<longrightarrow> list_all (\<lambda>ph. 0 \<le> phase_cost pt ph) phs) \<Longrightarrow>
   fle (Fin 0) (cum_month st) \<Longrightarrow> (0 < ms \<longrightarrow> finite_month (cum_month st)) \<Longrightarrow>
   p \<in> set (funding_loop pt ms infl st phs) \<Longrightarrow>
     fle (Fin 0) (f_start (fst p)) \<and> fle (f_start (fst p)) (f_end (fst p))"
proof (induction phs arbitrary: st)
  case Nil
  then show ?case by simp
next
  case (Cons ph phs)
  let ?q = "phase_iter pt ms infl st ph"
  let ?a = "fst (apply_upfront (remaining_upfront st) (phase_cost pt ph))"
  from Cons.prems(1) have b0: "0 < ms \<longrightarrow> 0 \<le> phase_cost pt ph"
    and rest: "0 < ms \<longrightarrow> list_all (\<lambda>ph. 0 \<le> phase_cost pt ph) phs"
    by simp_all
  have s: "fle (Fin 0) (f_start (fst ?q))"
    using Cons.prems(2) by (simp add: phase_iter_fields)
  have e: "fle (f_start (fst ?q)) (f_end (fst ?q)) \<and> fle (Fin 0) (f_end (fst ?q)) \<and>
      (0 < ms \<longrightarrow> finite_month (f_end (fst ?q)))"
  proof (cases "0 < ms")
    case True
    with Cons.prems(3) obtain c where c: "cum_month st = Fin c"
      by (cases "cum_month st") (auto simp: finite_month_def)
    with Cons.prems(2) have c0: "0 \<le> c" by simp
    from b0 True have "0 \<le> phase_cost pt ph" by simp
    then have a0: "0 \<le> ?a"
      by (rule apply_upfront_after_nonneg)
    have "0 \<le> ?a * (1 + infl / 100) powr (c / 12) / ms"
      using a0 True by simp
    with True c c0 show ?thesis
      by (simp add: phase_iter_fields finite_month_def)
  next
    case False
    with Cons.prems(2) show ?thesis
      by (cases "cum_month st") (simp_all add: phase_iter_fields)
  qed
  then have inv: "fle (Fin 0) (cum_month (snd ?q))" "0 < ms \<longrightarrow> finite_month (cum_month (snd ?q))"
    by (simp_all add: phase_iter_fields(7))
  from Cons.prems(4) have "p = ?q \<or> p \<in> set (funding_loop pt ms infl (snd ?q) phs)"
    by (simp add: funding_loop_Cons del: funding_loop.simps(2))
  then show ?case
    using s e Cons.IH [OF rest inv] by auto
qed

text \<open>
  Claim C7, as amended. Once an entry's end month is not finite, every later entry starts
  and ends at infinity. When no phase of the build order has a negative base cost, or
  when some entry's end month is not finite, the start and end months are non-negative
  and never decrease along the schedule.
\<close>

theorem schedule_infinite_monotone:
  "(\<forall>i j. i < j \<and> j < length (schedule pt order one_time ms infl) \<and>
       \<not> finite_month (f_end (schedule pt order one_time ms infl ! i)) \<longrightarrow>
       f_start (schedule pt order one_time ms infl ! j) = PInf \<and>
       f_end (schedule pt order one_time ms infl ! j) = PInf) \<and>
   (nonneg_costs pt order \<or>
    list_ex (\<lambda>e. \<not> finite_month (f_end e)) (schedule pt order one_time ms infl) \<longrightarrow>
     (\<forall>i < length (schedule pt order one_time ms infl).
        fle (Fin 0) (f_start (schedule pt order one_time ms infl ! i)) \<and>
        fle (f_start (schedule pt order one_time ms infl ! i))
            (f_end (schedule pt order one_time ms infl ! i)) \<and>
        (Suc i < length (schedule pt order one_time ms infl) \<longrightarrow>
           fle (f_end (schedule pt order one_time ms infl ! i))
               (f_start (schedule pt order one_time ms infl ! Suc i)))))"
proof -
  let ?st = "\<lparr>remaining_upfront = one_time, cum_month = Fin 0\<rparr>"
  let ?phs = "build_order pt order"
  let ?L = "funding_loop pt ms infl ?st ?phs"
  have len: "length ?L = length ?phs"
    by (rule funding_loop_length)
  have sch: "schedule pt order one_time ms infl = map fst ?L"
    by (simp add: schedule_def run_schedule_def)
  have inf: "f_start (fst (?L ! j)) = PInf \<and> f_end (fst (?L ! j)) = PInf"
    if ij: "i < j" "j < length ?L" and nf: "\<not> finite_month (f_end (fst (?L ! i)))" for i j
  proof -
    have mem: "?L ! k \<in> set ?L" if "k < length ?L" for k
      using that by simp
    have ms: "\<not> 0 < ms"
    proof
      assume "0 < ms"
      from ij have "i < length ?L" by simp
      from funding_loop_finite [OF \<open>0 < ms\<close> _ mem [OF this], of 0] nf show False
        by simp
    qed
    have ends: "f_end (fst (?L ! k)) = PInf" if "k < length ?L" for k
      using funding_loop_unfunded [OF ms _ mem [OF that], of 0] by simp
    from ij obtain k where k: "j = Suc k" by (cases j) auto
    with ij len have "Suc k < length ?phs" by simp
    from funding_loop_chain [OF this, of pt ms infl ?st] k ij ends [of k] ends [of j]
    show ?thesis by simp
  qed
  have mono: "fle (Fin 0) (f_start (fst (?L ! i))) \<and>
      fle (f_start (fst (?L ! i))) (f_end (fst (?L ! i))) \<and>
      (Suc i < length ?L \<longrightarrow> fle (f_end (fst (?L ! i))) (f_start (fst (?L ! Suc i))))"
    if nn: "nonneg_costs pt order \<or> list_ex (\<lambda>e. \<not> finite_month (f_end e)) (map fst ?L)"
      and i: "i < length ?L" for i
  proof -
    have all: "0 < ms \<longrightarrow> list_all (\<lambda>ph. 0 \<le> phase_cost pt ph) ?phs"
    proof
      assume ms: "0 < ms"
      have "finite_month (f_end (fst p))" if "p \<in> set ?L" for p
        using funding_loop_finite [OF ms _ that, of 0] by simp
      then have "\<not> list_ex (\<lambda>e. \<not> finite_month (f_end e)) (map fst ?L)"
        by (simp add: list_ex_iff)
      with nn show "list_all (\<lambda>ph. 0 \<le> phase_cost pt ph) ?phs"
        by (simp add: nonneg_costs_def)
    qed
    have ent: "fle (Fin 0) (f_start (fst (?L ! k))) \<and>
        fle (f_start (fst (?L ! k))) (f_end (fst (?L ! k)))" if "k < length ?L" for k
    proof -
      from that have "?L ! k \<in> set ?L" by simp
      from funding_loop_monotone [OF all _ _ this] show ?thesis
        by (simp add: finite_month_def)
    qed
    have "fle (f_end (fst (?L ! i))) (f_start (fst (?L ! Suc i)))" if si: "Suc i < length ?L"
    proof -
      from si len have "Suc i < length ?phs" by simp
      from funding_loop_chain [OF this, of pt ms infl ?st]
      have "f_start (fst (?L ! Suc i)) = f_end (fst (?L ! i))" .
      with ent [OF si] show ?thesis
        by (simp add: fle_refl_nonneg)
    qed
    with ent [OF i] show ?thesis by simp
  qed
  have part1: "\<forall>i j. i < j \<and> j < length (map fst ?L) \<and>
       \<not> finite_month (f_end (map fst ?L ! i)) \<longrightarrow>
       f_start (map fst ?L ! j) = PInf \<and> f_end (map fst ?L ! j) = PInf"
  proof (intro allI impI)
    fix i j
    assume h: "i < j \<and> j < length (map fst ?L) \<and> \<not> finite_month (f_end (map fst ?L ! i))"
    then have "i < length ?L" "j < length ?L" by simp_all
    with h inf [of i j] show "f_start (map fst ?L ! j) = PInf \<and> f_end (map fst ?L ! j) = PInf"
      by simp
  qed
  have part2: "nonneg_costs pt order \<or>
      list_ex (\<lambda>e. \<not> finite_month (f_end e)) (map fst ?L) \<longrightarrow>
     (\<forall>i < length (map fst ?L).
        fle (Fin 0) (f_start (map fst ?L ! i)) \<and>
        fle (f_start (map fst ?L ! i)) (f_end (map fst ?L ! i)) \<and>
        (Suc i < length (map fst ?L) \<longrightarrow>
           fle (f_end (map fst ?L ! i)) (f_start (map fst ?L ! Suc i))))"
  proof (intro allI impI)
    fix i
    assume nn: "nonneg_costs pt order \<or>
        list_ex (\<lambda>e. \<not> finite_month (f_end e)) (map fst ?L)"
      and i: "i < length (map fst ?L)"
    then have "i < length ?L" by simp
    from mono [OF nn this] i
    show "fle (Fin 0) (f_start (map fst ?L ! i)) \<and>
        fle (f_start (map fst ?L ! i)) (f_end (map fst ?L ! i)) \<and>
        (Suc i < length (map fst ?L) \<longrightarrow>
           fle (f_end (map fst ?L ! i)) (f_start (map fst ?L ! Suc i)))"
      by simp
  qed
  from part1 part2 show ?thesis
    unfolding sch by (rule conjI)
qed

theorem schedule_infinite_monotone_witness:
  "nonneg_costs two_phases [] \<and>
   (0::nat) < 1 \<and> 1 < length (schedule two_phases [] 0 0 0) \<and>
   \<not> finite_month (f_end (schedule two_phases [] 0 0 0 ! 0)) \<and>
   f_start (schedule two_phases [] 0 0 0 ! 1) = PInf \<and>
   f_end (schedule two_phases [] 0 0 0 ! 1) = PInf \<and>
   fle (Fin 0) (f_start (schedule two_phases [] 0 0 0 ! 0)) \<and>
   fle (f_end (schedule two_phases [] 0 0 0 ! 0)) (f_start (schedule two_phases [] 0 0 0 ! 1))"
proof -
  have nn: "nonneg_costs two_phases []"
    by (simp add: nonneg_costs_def build_order_def two_phases_def phase_cost_def)
  have "length (schedule two_phases [] 0 0 0) = length (build_order two_phases [])"
    by (simp add: schedule_def run_schedule_def funding_loop_length)
  then have len: "length (schedule two_phases [] 0 0 0) = Suc (Suc 0)"
    by (simp add: build_order_def two_phases_def)
  have e0: "f_end (schedule two_phases [] 0 0 0 ! 0) = PInf"
    by (simp add: schedule_def run_schedule_def build_order_def two_phases_def phase_iter_def
        apply_upfront_def phase_cost_def Let_def)
  then have nf: "\<not> finite_month (f_end (schedule two_phases [] 0 0 0 ! 0))"
    by (simp add: finite_month_def)
  from schedule_infinite_monotone [of two_phases "[]" 0 0 0]
  have a: "\<forall>i j. i < j \<and> j < length (schedule two_phases [] 0 0 0) \<and>
       \<not> finite_month (f_end (schedule two_phases [] 0 0 0 ! i)) \<longrightarrow>
       f_start (schedule two_phases [] 0 0 0 ! j) = PInf \<and>
       f_end (schedule two_phases [] 0 0 0 ! j) = PInf"
    and b: "\<forall>i < length (schedule two_phases [] 0 0 0).
        fle (Fin 0) (f_start (schedule two_phases [] 0 0 0 ! i)) \<and>
        fle (f_start (schedule two_phases [] 0 0 0 ! i))
            (f_end (schedule two_phases [] 0 0 0 ! i)) \<and>
        (Suc i < length (schedule two_phases [] 0 0 0) \<longrightarrow>
           fle (f_end (schedule two_phases [] 0 0 0 ! i))
               (f_start (schedule two_phases [] 0 0 0 ! Suc i)))"
    using nn by blast+
  from a [rule_format, of 0 1] len nf
  have c: "f_start (schedule two_phases [] 0 0 0 ! 1) = PInf \<and>
      f_end (schedule two_phases [] 0 0 0 ! 1) = PInf"
    by simp
  from b [rule_format, of 0] len
  have d: "fle (Fin 0) (f_start (schedule two_phases [] 0 0 0 ! 0)) \<and>
      fle (f_end (schedule two_phases [] 0 0 0 ! 0)) (f_start (schedule two_phases [] 0 0 0 ! 1))"
    by simp
  from nn len nf c d show ?thesis by simp
qed

text \<open>
  Claim C7 as stated fails on a phase with a negative base cost: with positive savings
  the phase needs a negative number of months and ends before it starts.
\<close>

theorem schedule_negative_cost_counterexample:
  "map f_start (schedule [(''Foundation'', - 1200)] [] 0 400 0) = [Fin 0] \<and>
   map f_end (schedule [(''Foundation'', - 1200)] [] 0 400 0) = [Fin (- 3)] \<and>
   \<not> fle (Fin 0) (Fin (- 3))"
  by (simp add: schedule_def run_schedule_def build_order_def phase_iter_def
      apply_upfront_def phase_cost_def Let_def)

lemma funding_loop_upfront:
  "list_all (\<lambda>ph. 0 \<le> phase_cost pt ph) phs \<Longrightarrow> 0 \<le> remaining_upfront st \<Longrightarrow>
     sorted_wrt (\<lambda>a b. b \<le> a)
       (remaining_upfront st # map (\<lambda>p. remaining_upfront (snd p)) (funding_loop pt ms infl st phs)) \<and>
     (\<forall>p \<in> set (funding_loop pt ms infl st phs). 0 \<le> remaining_upfront (snd p)) \<and>
     sum_list (map (\<lambda>p. f_base (fst p) - f_after_upfront (fst p)) (funding_loop pt ms infl st phs)) =
       remaining_upfront st -
       last (remaining_upfront st # map (\<lambda>p. remaining_upfront (snd p)) (funding_loop pt ms infl st phs))"
proof (induction phs arbitrary: st)
  case Nil
  then show ?case by simp
next
  case (Cons ph phs)
  let ?q = "phase_iter pt ms infl st ph"
  let ?T = "map (\<lambda>p. remaining_upfront (snd p)) (funding_loop pt ms infl (snd ?q) phs)"
  from Cons.prems(1) have b0: "0 \<le> phase_cost pt ph"
    and rest: "list_all (\<lambda>ph. 0 \<le> phase_cost pt ph) phs"
    by simp_all
  from apply_upfront_remaining [OF Cons.prems(2) b0]
  have r: "0 \<le> remaining_upfront (snd ?q)" "remaining_upfront (snd ?q) \<le> remaining_upfront st"
    "f_base (fst ?q) - f_after_upfront (fst ?q) = remaining_upfront st - remaining_upfront (snd ?q)"
    by (simp_all add: phase_iter_fields)
  from Cons.IH [OF rest r(1)]
  have ih: "sorted_wrt (\<lambda>a b. b \<le> a) (remaining_upfront (snd ?q) # ?T)"
    "\<forall>p \<in> set (funding_loop pt ms infl (snd ?q) phs). 0 \<le> remaining_upfront (snd p)"
    "sum_list (map (\<lambda>p. f_base (fst p) - f_after_upfront (fst p))
        (funding_loop pt ms infl (snd ?q) phs)) =
      remaining_upfront (snd ?q) - last (remaining_upfront (snd ?q) # ?T)"
    by simp_all
  have "\<forall>y \<in> set (remaining_upfront (snd ?q) # ?T). y \<le> remaining_upfront st"
    using ih(1) r(2) by auto
  then have srt: "sorted_wrt (\<lambda>a b. b \<le> a) (remaining_upfront st # remaining_upfront (snd ?q) # ?T)"
    using ih(1) by simp
  show ?case
    unfolding funding_loop_Cons using srt ih(2,3) r(1,3) by simp
qed

text \<open>
  Claim C10. With non-negative upfront cash and non-negative base costs, the remaining
  upfront cash never increases from one pass of the loop to the next and is never
  negative. The amounts applied, which are the differences between base cost and cost
  after upfront, add up to the decrease of the remaining upfront cash and so to at most
  the upfront cash.
\<close>

theorem upfront_residual_bounds:
  assumes "0 \<le> one_time" and "nonneg_costs pt order"
  shows "sorted_wrt (\<lambda>a b. b \<le> a) (one_time # upfront_trace pt order one_time ms infl) \<and>
     (\<forall>r \<in> set (upfront_trace pt order one_time ms infl). 0 \<le> r) \<and>
     sum_list (map (\<lambda>e. f_base e - f_after_upfront e) (schedule pt order one_time ms infl)) =
       one_time - last (one_time # upfront_trace pt order one_time ms infl) \<and>
     sum_list (map (\<lambda>e. f_base e - f_after_upfront e) (schedule pt order one_time ms infl))
       \<le> one_time"
proof -
  let ?st = "\<lparr>remaining_upfront = one_time, cum_month = Fin 0\<rparr>"
  let ?L = "funding_loop pt ms infl ?st (build_order pt order)"
  let ?T = "map (\<lambda>p. remaining_upfront (snd p)) ?L"
  from assms(2) have all: "list_all (\<lambda>ph. 0 \<le> phase_cost pt ph) (build_order pt order)"
    by (simp add: nonneg_costs_def)
  from funding_loop_upfront [OF all, of ?st ms infl] assms(1)
  have a: "sorted_wrt (\<lambda>a b. b \<le> a) (one_time # ?T)"
    and b: "\<forall>p \<in> set ?L. 0 \<le> remaining_upfront (snd p)"
    and c: "sum_list (map (\<lambda>p. f_base (fst p) - f_after_upfront (fst p)) ?L) =
      one_time - last (one_time # ?T)"
    by simp_all
  have "last (one_time # ?T) \<in> set (one_time # ?T)"
    by (rule last_in_set) simp
  with b assms(1) have "0 \<le> last (one_time # ?T)"
    by auto
  with c have d: "sum_list (map (\<lambda>p. f_base (fst p) - f_after_upfront (fst p)) ?L) \<le> one_time"
    by simp
  have sm: "map (\<lambda>e. f_base e - f_after_upfront e) (map fst ?L) =
      map (\<lambda>p. f_base (fst p) - f_after_upfront (fst p)) ?L"
    by simp
  show ?thesis
    unfolding upfront_trace_def schedule_def run_schedule_def sm
    using a b c d by simp
qed

theorem upfront_residual_bounds_witness:
  "(0::real) \<le> 1500 \<and> nonneg_costs two_phases [] \<and>
   upfront_trace two_phases [] 1500 400 0 = [300, 0] \<and>
   sum_list (map (\<lambda>e. f_base e - f_after_upfront e) (schedule two_phases [] 1500 400 0)) = 1500"
proof -
  have nn: "nonneg_costs two_phases []"
    by (simp add: nonneg_costs_def build_order_def two_phases_def phase_cost_def)
  have tr: "upfront_trace two_phases [] 1500 400 0 = [300, 0]"
    by (simp add: upfront_trace_def run_schedule_def build_order_def two_phases_def
        phase_iter_def apply_upfront_def phase_cost_def Let_def)
  from upfront_residual_bounds [of 1500 two_phases "[]" 400 0] nn tr show ?thesis
    by simp
qed

section \<open>Properties of the BOQ builder\<close>

lemma total_area_sum_fold:
  "fold (\<lambda>(room, cnt) acc. acc + real_of_int cnt * room_area templates room) counts a =
   a + (\<Sum>(room, cnt)\<leftarrow>counts. real_of_int cnt * room_area templates room)"
  by (induction counts arbitrary: a) auto

lemma total_area_sum:
  "total_area counts templates =
     (\<Sum>(room, cnt)\<leftarrow>counts. real_of_int cnt * room_area templates room)"
  by (simp add: total_area_def total_area_sum_fold)

lemma total_area_double:
  "total_area (double_counts counts) templates = 2 * total_area counts templates"
  unfolding total_area_sum
  by (induction counts) (auto simp: double_counts_def algebra_simps)

lemma update_double:
  "AList.update k (2 * v) (double_qty m) = double_qty (AList.update k v m)"
  by (induction m) (auto simp: double_qty_def)

lemma seed_double_fold:
  "fold (\<lambda>row m. AList.update (s_item row) (s_consumption_per_m2 row * (2 * area)) m) mat
     (double_qty m0) =
   double_qty (fold (\<lambda>row m. AList.update (s_item row) (s_consumption_per_m2 row * area) m) mat m0)"
proof (induction mat arbitrary: m0)
  case Nil
  then show ?case by simp
next
  case (Cons row mat)
  have "AList.update (s_item row) (s_consumption_per_m2 row * (2 * area)) (double_qty m0) =
      double_qty (AList.update (s_item row) (s_consumption_per_m2 row * area) m0)"
    using update_double [of "s_item row" "s_consumption_per_m2 row * area" m0]
    by (simp add: mult.left_commute)
  with Cons.IH show ?case by simp
qed

lemma seed_double: "seed_qty_map mat (2 * area) = double_qty (seed_qty_map mat area)"
  using seed_double_fold [where ?m0.0 = "[]"] by (simp add: seed_qty_map_def double_qty_def)

lemma qty_get_double: "qty_get (double_qty m) k = 2 * qty_get m k"
  by (induction m) (auto simp: qty_get_def double_qty_def)

lemma add_qty_double: "add_qty k (2 * v) (double_qty m) = double_qty (add_qty k v m)"
  using update_double [of k "qty_get m k + v" m]
  by (simp add: add_qty_def qty_get_double algebra_simps)

lemma fixture_step_double:
  "fixture_step lookup (2 * cnt) fx (double_qty m) = double_qty (fixture_step lookup cnt fx m)"
proof (cases fx)
  case (Pair fk fq)
  have "fq * real_of_int (2 * cnt) = 2 * (fq * real_of_int cnt)"
    by simp
  then have "add_qty k (fq * real_of_int (2 * cnt)) (double_qty m) =
      double_qty (add_qty k (fq * real_of_int cnt) m)" for k
    by (simp only: add_qty_double)
  then show ?thesis
    unfolding Pair fixture_step_def by simp
qed

lemma fixtures_fold_double:
  "fold (fixture_step lookup (2 * cnt)) fs (double_qty m) =
   double_qty (fold (fixture_step lookup cnt) fs m)"
  by (induction fs arbitrary: m) (simp_all add: fixture_step_double)

lemma room_step_double:
  "room_step lookup templates (room, 2 * cnt) (double_qty m) =
   double_qty (room_step lookup templates (room, cnt) m)"
  by (simp add: room_step_def fixtures_fold_double)

lemma rooms_fold_double:
  "fold (room_step lookup templates) (double_counts counts) (double_qty m) =
   double_qty (fold (room_step lookup templates) counts m)"
proof (induction counts arbitrary: m)
  case Nil
  then show ?case by (simp add: double_counts_def)
next
  case (Cons rc counts)
  obtain room cnt where rc: "rc = (room, cnt)" by (cases rc)
  from Cons.IH [of "room_step lookup templates (room, cnt) m"] show ?case
    by (simp add: rc double_counts_def room_step_double)
qed

lemma qty_map_of_double:
  "qty_map_of (double_counts counts) templates mat = double_qty (qty_map_of counts templates mat)"
  by (simp add: qty_map_of_def total_area_double seed_double rooms_fold_double)

lemma make_row_double: "make_row mat (k, 2 * v) = double_row (make_row mat (k, v))"
  by (simp add: make_row_def double_row_def split: option.split)

lemma rows_double:
  "map (make_row mat) (double_qty m) = map double_row (map (make_row mat) m)"
  by (induction m) (auto simp: double_qty_def make_row_double)

lemma row_key_double: "row_key (double_row r) = row_key r"
  by (simp add: row_key_def double_row_def split: option.split)

lemma sum_double: "sum_list (map (\<lambda>r. 2 * f r) rs) = 2 * (sum_list (map f rs) :: real)"
  by (induction rs) simp_all

lemma group_row_double:
  "group_row (map double_row rows) k = double_row (group_row rows k)"
proof -
  obtain i u p ph where k: "k = (i, u, p, ph)" by (cases k) auto
  have f: "filter (\<lambda>r. row_key r = Some (i, u, p, ph)) (map double_row rows) =
      map double_row (filter (\<lambda>r. row_key r = Some (i, u, p, ph)) rows)"
    by (simp add: filter_map o_def row_key_double)
  have q: "map total_qty (map double_row g) = map (\<lambda>r. 2 * total_qty r) g" for g
    by (simp add: double_row_def)
  have c: "map total_cost (map double_row g) = map (\<lambda>r. 2 * total_cost r) g" for g
    by (simp add: double_row_def)
  show ?thesis
    unfolding k group_row_def prod.case f q c sum_double
    by (simp add: double_row_def)
qed

lemma groupby_agg_double: "groupby_agg (map double_row rows) = map double_row (groupby_agg rows)"
proof -
  have k: "List.map_filter row_key (map double_row rows) = List.map_filter row_key rows"
    by (induction rows) (simp_all add: row_key_double split: option.split)
  have g: "map (group_row (map double_row rows)) ks = map double_row (map (group_row rows) ks)" for ks
    by (simp add: group_row_double)
  show ?thesis
    unfolding groupby_agg_def k g ..
qed

text \<open>
  Claim C8. Doubling every room count doubles the total area, doubles the area-driven
  quantity seeded for every catalog item, and doubles the quantity (and the cost) of
  every row of the BOQ, whose rows are otherwise the same.
\<close>

theorem doubling_counts:
  "total_area (double_counts counts) templates = 2 * total_area counts templates \<and>
   seed_qty_map mat (total_area (double_counts counts) templates) =
     double_qty (seed_qty_map mat (total_area counts templates)) \<and>
   build_boq (double_counts counts) templates materials_df quality_multiplier location_multiplier =
     map double_row
       (build_boq counts templates materials_df quality_multiplier location_multiplier)"
  by (simp add: total_area_double seed_double build_boq_def Let_def qty_map_of_double rows_double
      groupby_agg_double del: map_map)

theorem doubling_counts_witness:
  "total_area (double_counts [(''Bedroom'', 1)]) [bedroom] = 24"
  using doubling_counts [of "[(''Bedroom'', 1)]" "[bedroom]" "[]" "[]" 1 1]
  by (simp add: total_area_def bedroom_def room_area_def)























text \<open>
  A negative count does not contribute zero either: it is skipped by the fixture loop,
  but its area is subtracted from the total area.
\<close>

lemma negative_count_example:
  "total_area [(''Bedroom'', - 1)] [bedroom] = - 12 \<and>
   map total_qty (build_boq [(''Bedroom'', - 1)] [bedroom] [cement] 1 1) = [- (48 / 10)]"
  by (simp add: build_boq_def scale_materials_def scale_row_def cement_def bedroom_def
      fillna_def to_numeric_def qty_map_of_def seed_qty_map_def total_area_def room_area_def
      room_step_def make_row_def groupby_agg_def group_row_def row_key_def)

text \<open>
  A catalog row whose unit is null is dropped by the final group-by, so a catalog that is
  not empty can give an empty BOQ; the property above leaves such catalogs out.
\<close>

lemma null_unit_example: "build_boq [] [] [sand_no_unit] 1 1 = []"
  by (simp add: build_boq_def scale_materials_def scale_row_def sand_no_unit_def fillna_def
      to_numeric_def qty_map_of_def seed_qty_map_def total_area_def make_row_def groupby_agg_def
      row_key_def)

lemma raising_frame_example:
  "build_boq_frame [(''Bedroom'', 1)] [bedroom] [sand_frame_row, unnamed_frame_row] 1 1 =
     Inl AttributeError"
  by (simp add: build_boq_frame_def sand_frame_row_def unnamed_frame_row_def)

lemma update_set_subset: "set (AList.update k v m) \<subseteq> insert (k, v) (set m)"
  by (induction m) auto

lemma item_lookup_keys_fold:
  "fst ` set (fold (\<lambda>s m. AList.update (lower s) s m) items acc) =
     fst ` set acc \<union> lower ` set items"
proof (induction items arbitrary: acc)
  case Nil
  show ?case by simp
next
  case (Cons c cs)
  show ?case
    by (simp add: Cons.IH dom_update)
qed

lemma item_lookup_keys: "fst ` set (item_lookup items) = lower ` set items"
  by (simp add: item_lookup_def item_lookup_keys_fold)

lemma item_lookup_values_fold:
  "snd ` set (fold (\<lambda>s m. AList.update (lower s) s m) items acc) \<subseteq>
     snd ` set acc \<union> set items"
proof (induction items arbitrary: acc)
  case Nil
  show ?case by simp
next
  case (Cons c cs)
  have "snd ` set (AList.update (lower c) c acc) \<subseteq> insert c (snd ` set acc)"
    using update_set_subset [of "lower c" c acc] by force
  with Cons.IH [of "AList.update (lower c) c acc"] show ?case
    by auto
qed

lemma item_lookup_values: "snd ` set (item_lookup items) \<subseteq> set items"
  using item_lookup_values_fold [of items "[]"] by (simp add: item_lookup_def)

lemma find_match_None:
  assumes "find_match lookup key = None" and "(k, s) \<in> set lookup"
  shows "\<not> contains k (lower key)"
proof -
  from assms(1) have "find (\<lambda>(k, s). contains k (lower key)) lookup = None"
    by (simp add: find_match_def split: option.splits prod.splits)
  with assms(2) show ?thesis
    by (auto simp: find_None_iff)
qed

lemma find_match_Some:
  assumes "find_match lookup key = Some s"
  shows "s \<in> snd ` set lookup"
proof -
  have a: "map_of lookup k = Some s \<Longrightarrow> s \<in> snd ` set lookup" for k
    by (force dest: map_of_SomeD)
  have b: "s \<in> snd ` set lookup"
    if "find (\<lambda>(k, s). contains k (lower key)) lookup = Some (k, s)" for k
  proof -
    from that have "(k, s) \<in> set lookup"
      by (metis find_Some_iff nth_mem)
    then show ?thesis by force
  qed
  from assms show ?thesis
    by (auto simp: find_match_def split: option.splits prod.splits if_splits intro: a b)
qed

lemma starts_with_append: "starts_with (xs @ ys) xs"
  by (induction xs) simp_all

lemma contains_append: "contains (xs @ ys) xs"
  using starts_with_append [of xs ys] by (cases "xs @ ys") auto

lemma lower_append: "lower (xs @ ys) = lower xs @ lower ys"
  by (simp add: lower_def)

lemma unmatched_not_item:
  assumes "find_match (item_lookup items) label = None"
  shows "label @ '' (user)'' \<notin> set items"
proof
  assume "label @ '' (user)'' \<in> set items"
  then have "lower (label @ '' (user)'') \<in> fst ` set (item_lookup items)"
    by (simp add: item_lookup_keys)
  then obtain s where "(lower (label @ '' (user)''), s) \<in> set (item_lookup items)"
    by auto
  from find_match_None [OF assms this] show False
    by (simp add: lower_append contains_append)
qed

lemma fixture_key_cases:
  "fixture_key (item_lookup items) fk \<in> set items \<or>
   fixture_key (item_lookup items) fk = fk @ '' (user)''"
proof (cases "find_match (item_lookup items) fk")
  case None
  then show ?thesis by (simp add: fixture_key_def)
next
  case (Some s)
  from find_match_Some [OF this] item_lookup_values [of items] have "s \<in> set items"
    by auto
  with Some show ?thesis by (simp add: fixture_key_def)
qed

lemma fixture_key_placeholder:
  assumes "find_match (item_lookup items) label = None"
  shows "fixture_key (item_lookup items) fk = label @ '' (user)'' \<longleftrightarrow> fk = label"
proof
  assume eq: "fixture_key (item_lookup items) fk = label @ '' (user)''"
  from unmatched_not_item [OF assms] eq fixture_key_cases [of items fk]
  have "fk @ '' (user)'' = label @ '' (user)''"
    by auto
  then show "fk = label" by simp
next
  assume "fk = label"
  with assms show "fixture_key (item_lookup items) fk = label @ '' (user)''"
    by (simp add: fixture_key_def)
qed

lemma qty_get_add_qty:
  "qty_get (add_qty k v m) k' = (if k' = k then qty_get m k + v else qty_get m k')"
  by (simp add: add_qty_def qty_get_def update_conv')

lemma keys_add_qty: "fst ` set (add_qty k v m) = insert k (fst ` set m)"
  by (simp add: add_qty_def dom_update)

lemma distinct_add_qty: "distinct (map fst m) \<Longrightarrow> distinct (map fst (add_qty k v m))"
  by (simp add: add_qty_def distinct_update)

lemma fixture_step_qty:
  assumes "\<And>fk. fixture_key lookup fk = K \<longleftrightarrow> fk = label"
  shows "qty_get (fixture_step lookup cnt (fk, fq) m) K =
     qty_get m K + (if fk = label \<and> 0 < fq then fq * real_of_int cnt else 0)"
proof (cases "fq \<le> 0")
  case True
  then show ?thesis by (simp add: fixture_step_def)
next
  case False
  have "fixture_key lookup fk = K \<longleftrightarrow> fk = label"
    by (rule assms)
  with False show ?thesis
    by (auto simp: fixture_step_def qty_get_add_qty)
qed

lemma fixture_step_keys:
  assumes "\<And>fk. fixture_key lookup fk = K \<longleftrightarrow> fk = label"
  shows "K \<in> fst ` set (fixture_step lookup cnt (fk, fq) m) \<longleftrightarrow>
     K \<in> fst ` set m \<or> (fk = label \<and> 0 < fq)"
proof (cases "fq \<le> 0")
  case True
  then show ?thesis by (simp add: fixture_step_def)
next
  case False
  then have "fst ` set (fixture_step lookup cnt (fk, fq) m) =
      insert (fixture_key lookup fk) (fst ` set m)"
    by (simp add: fixture_step_def keys_add_qty)
  with False assms [of fk] show ?thesis
    by auto
qed

lemma fixture_step_distinct:
  "distinct (map fst m) \<Longrightarrow> distinct (map fst (fixture_step lookup cnt fx m))"
  by (cases fx) (simp add: fixture_step_def distinct_add_qty)

lemma fixtures_fold_qty:
  assumes "\<And>fk. fixture_key lookup fk = K \<longleftrightarrow> fk = label"
  shows "qty_get (fold (fixture_step lookup cnt) fs m) K =
     qty_get m K + fixture_contribution label cnt fs"
proof (induction fs arbitrary: m)
  case Nil
  show ?case by (simp add: fixture_contribution_def)
next
  case (Cons fx fs)
  obtain fk fq where fx: "fx = (fk, fq)" by (cases fx)
  have "fixture_contribution label cnt ((fk, fq) # fs) =
      (if fk = label \<and> 0 < fq then fq * real_of_int cnt else 0) +
      fixture_contribution label cnt fs"
    by (simp add: fixture_contribution_def)
  then show ?case
    unfolding fx by (simp add: Cons.IH fixture_step_qty [OF assms])
qed

lemma fixtures_fold_keys:
  assumes "\<And>fk. fixture_key lookup fk = K \<longleftrightarrow> fk = label"
  shows "K \<in> fst ` set (fold (fixture_step lookup cnt) fs m) \<longleftrightarrow>
     K \<in> fst ` set m \<or> list_ex (\<lambda>(fk, fq). fk = label \<and> 0 < fq) fs"
proof (induction fs arbitrary: m)
  case Nil
  show ?case by simp
next
  case (Cons fx fs)
  obtain fk fq where fx: "fx = (fk, fq)" by (cases fx)
  show ?case
    unfolding fx by (simp add: Cons.IH fixture_step_keys [OF assms] disj_assoc)
qed

lemma fixtures_fold_distinct:
  "distinct (map fst m) \<Longrightarrow> distinct (map fst (fold (fixture_step lookup cnt) fs m))"
  by (induction fs arbitrary: m) (simp_all add: fixture_step_distinct)

lemma room_step_qty:
  assumes "\<And>fk. fixture_key lookup fk = K \<longleftrightarrow> fk = label"
  shows "qty_get (room_step lookup templates (room, cnt) m) K =
     qty_get m K +
     (if 0 < cnt then fixture_contribution label cnt (room_fixtures templates room) else 0)"
  by (simp add: room_step_def fixtures_fold_qty [OF assms] not_less)

lemma room_step_keys:
  assumes "\<And>fk. fixture_key lookup fk = K \<longleftrightarrow> fk = label"
  shows "K \<in> fst ` set (room_step lookup templates (room, cnt) m) \<longleftrightarrow>
     K \<in> fst ` set m \<or>
     (0 < cnt \<and> list_ex (\<lambda>(fk, fq). fk = label \<and> 0 < fq) (room_fixtures templates room))"
proof (cases "cnt \<le> 0")
  case True
  then show ?thesis by (simp add: room_step_def)
next
  case False
  then show ?thesis
    by (simp add: room_step_def fixtures_fold_keys [OF assms])
qed

lemma room_step_distinct:
  "distinct (map fst m) \<Longrightarrow> distinct (map fst (room_step lookup templates rc m))"
  by (cases rc) (simp add: room_step_def fixtures_fold_distinct)

lemma rooms_fold_qty:
  assumes "\<And>fk. fixture_key lookup fk = K \<longleftrightarrow> fk = label"
  shows "qty_get (fold (room_step lookup templates) counts m) K =
     qty_get m K + placeholder_qty counts templates label"
proof (induction counts arbitrary: m)
  case Nil
  show ?case by (simp add: placeholder_qty_def)
next
  case (Cons rc counts)
  obtain room cnt where rc: "rc = (room, cnt)" by (cases rc)
  have "placeholder_qty ((room, cnt) # counts) templates label =
      (if 0 < cnt then fixture_contribution label cnt (room_fixtures templates room) else 0) +
      placeholder_qty counts templates label"
    by (simp add: placeholder_qty_def)
  then show ?case
    unfolding rc by (simp add: Cons.IH room_step_qty [OF assms])
qed

lemma rooms_fold_keys:
  assumes "\<And>fk. fixture_key lookup fk = K \<longleftrightarrow> fk = label"
  shows "K \<in> fst ` set (fold (room_step lookup templates) counts m) \<longleftrightarrow>
     K \<in> fst ` set m \<or> label_counted counts templates label"
proof (induction counts arbitrary: m)
  case Nil
  show ?case by (simp add: label_counted_def)
next
  case (Cons rc counts)
  obtain room cnt where rc: "rc = (room, cnt)" by (cases rc)
  have "label_counted ((room, cnt) # counts) templates label \<longleftrightarrow>
      (0 < cnt \<and> list_ex (\<lambda>(fk, fq). fk = label \<and> 0 < fq) (room_fixtures templates room)) \<or>
      label_counted counts templates label"
    by (simp add: label_counted_def)
  then show ?case
    unfolding rc by (simp add: Cons.IH room_step_keys [OF assms] disj_assoc)
qed

lemma rooms_fold_distinct:
  "distinct (map fst m) \<Longrightarrow> distinct (map fst (fold (room_step lookup templates) counts m))"
  by (induction counts arbitrary: m) (simp_all add: room_step_distinct)

lemma seed_fold_keys:
  "fst ` set (fold (\<lambda>row m. AList.update (s_item row) (s_consumption_per_m2 row * area) m) mat m0) =
     fst ` set m0 \<union> s_item ` set mat"
proof (induction mat arbitrary: m0)
  case Nil
  show ?case by simp
next
  case (Cons row mat)
  show ?case by (simp add: Cons.IH dom_update)
qed

lemma seed_keys: "fst ` set (seed_qty_map mat area) = s_item ` set mat"
  by (simp add: seed_qty_map_def seed_fold_keys)

lemma seed_fold_distinct:
  "distinct (map fst m0) \<Longrightarrow>
   distinct (map fst
     (fold (\<lambda>row m. AList.update (s_item row) (s_consumption_per_m2 row * area) m) mat m0))"
  by (induction mat arbitrary: m0) (simp_all add: distinct_update)

lemma seed_distinct: "distinct (map fst (seed_qty_map mat area))"
  by (simp add: seed_qty_map_def seed_fold_distinct)

lemma qty_map_of_distinct: "distinct (map fst (qty_map_of counts templates mat))"
  by (simp add: qty_map_of_def rooms_fold_distinct seed_distinct)

lemma qty_get_absent:
  assumes "k \<notin> fst ` set m"
  shows "qty_get m k = 0"
proof -
  from assms have "map_of m k = None"
    by (simp add: map_of_eq_None_iff)
  then show ?thesis by (simp add: qty_get_def)
qed

lemma qty_get_present:
  assumes "distinct (map fst m)" and "k \<in> fst ` set m"
  shows "(k, qty_get m k) \<in> set m"
proof -
  from assms(2) obtain v where v: "(k, v) \<in> set m" by auto
  with assms(1) have "map_of m k = Some v" by simp
  with v show ?thesis by (simp add: qty_get_def)
qed

text \<open>The quantity map holds the placeholder of an unmatched, counted label.\<close>

lemma qty_map_of_placeholder:
  assumes un: "find_match (item_lookup (map s_item mat)) label = None"
    and lc: "label_counted counts templates label"
  shows "(label @ '' (user)'', placeholder_qty counts templates label) \<in>
     set (qty_map_of counts templates mat)"
proof -
  let ?K = "label @ '' (user)''"
  let ?lookup = "item_lookup (map s_item mat)"
  let ?seed = "seed_qty_map mat (total_area counts templates)"
  have kf: "fixture_key ?lookup fk = ?K \<longleftrightarrow> fk = label" for fk
    using un by (rule fixture_key_placeholder)
  from unmatched_not_item [OF un] have "?K \<notin> fst ` set ?seed"
    by (simp add: seed_keys)
  then have s0: "qty_get ?seed ?K = 0"
    by (rule qty_get_absent)
  have q: "qty_get (qty_map_of counts templates mat) ?K = placeholder_qty counts templates label"
    unfolding qty_map_of_def using rooms_fold_qty [of ?lookup ?K label templates counts ?seed] kf s0
    by simp
  have k: "?K \<in> fst ` set (qty_map_of counts templates mat)"
    unfolding qty_map_of_def using rooms_fold_keys [of ?lookup ?K label templates counts ?seed] kf lc
    by simp
  from qty_get_present [OF qty_map_of_distinct k] q show ?thesis
    by simp
qed

lemma make_row_item: "item (make_row mat (k, v)) = k"
  by (simp add: make_row_def split: option.split)

lemma rows_items: "map item (map (make_row mat) m) = map fst m"
  by (induction m) (auto simp: make_row_item)

lemma make_row_placeholder:
  assumes "label @ '' (user)'' \<notin> s_item ` set mat"
  shows "make_row mat (label @ '' (user)'', v) = placeholder_row label v"
proof -
  from assms have "\<not> (\<exists>r. r \<in> set mat \<and> s_item r = label @ '' (user)'')"
    by (metis image_eqI)
  then have "find (\<lambda>r. s_item r = label @ '' (user)'') mat = None"
    by (simp add: find_None_iff)
  then show ?thesis
    by (simp add: make_row_def placeholder_row_def)
qed

lemma filter_single:
  "distinct xs \<Longrightarrow> x \<in> set xs \<Longrightarrow> (\<And>y. y \<in> set xs \<Longrightarrow> P y \<longleftrightarrow> y = x) \<Longrightarrow>
     filter P xs = [x]"
proof (induction xs)
  case Nil
  then show ?case by simp
next
  case (Cons a xs)
  show ?case
  proof (cases "a = x")
    case True
    with Cons.prems(1) have "x \<notin> set xs" by simp
    with Cons.prems(3) have "\<forall>y \<in> set xs. \<not> P y" by auto
    then have "filter P xs = []" by (simp add: filter_empty_conv)
    moreover from Cons.prems(3) [of a] True have "P a" by simp
    ultimately show ?thesis using True by simp
  next
    case False
    with Cons.prems(2) have x: "x \<in> set xs" by simp
    from Cons.prems(1) have d: "distinct xs" by simp
    have "filter P xs = [x]"
      using d x Cons.prems(3) by (intro Cons.IH) auto
    moreover from Cons.prems(3) [of a] False have "\<not> P a" by simp
    ultimately show ?thesis by simp
  qed
qed

lemma same_item_same_row:
  assumes "distinct (map item rows)" and "r \<in> set rows" and "y \<in> set rows"
    and "item y = item r"
  shows "y = r"
proof -
  from assms(1) have "inj_on item (set rows)"
    by (simp add: distinct_map)
  with assms(2-4) show ?thesis
    by (auto dest: inj_onD)
qed

lemma row_key_SomeD:
  assumes "row_key r = Some (i, u, p, ph)"
  shows "item r = i \<and> unit r = Some u \<and> unit_price r = p \<and> phase r = Some ph"
  using assms by (simp add: row_key_def split: option.splits)

lemma map_filter_set: "set (List.map_filter f xs) = {y. \<exists>x \<in> set xs. f x = Some y}"
  by (induction xs) (auto split: option.splits)

lemma group_row_single:
  assumes "distinct (map item rows)" and "r \<in> set rows" and "row_key r = Some k"
  shows "group_row rows k = r"
proof -
  obtain i u p ph where k: "k = (i, u, p, ph)" by (cases k) auto
  from assms(3) have fields: "item r = i" "unit r = Some u" "unit_price r = p" "phase r = Some ph"
    using row_key_SomeD [of r i u p ph] by (simp_all add: k)
  from assms(1) have d: "distinct rows"
    by (simp add: distinct_map)
  have f: "filter (\<lambda>y. row_key y = Some (i, u, p, ph)) rows = [r]"
  proof (rule filter_single [OF d assms(2)])
    fix y assume y: "y \<in> set rows"
    show "row_key y = Some (i, u, p, ph) \<longleftrightarrow> y = r"
    proof
      assume "row_key y = Some (i, u, p, ph)"
      then have "item y = i" by (simp add: row_key_SomeD)
      with fields have "item y = item r" by simp
      with assms(1,2) y show "y = r" by (rule same_item_same_row)
    next
      assume "y = r"
      with assms(3) show "row_key y = Some (i, u, p, ph)" by (simp add: k)
    qed
  qed
  have "group_row rows k =
      \<lparr>item = i, unit = Some u, total_qty = total_qty r, unit_price = p,
       total_cost = total_cost r, phase = Some ph\<rparr>"
    by (simp add: k group_row_def f)
  also have "\<dots> = r"
    using fields by (cases r) simp
  finally show ?thesis .
qed

lemma group_row_item: "item (group_row rows k) = fst k"
proof -
  obtain i u p ph where "k = (i, u, p, ph)" by (cases k) auto
  then show ?thesis by (simp add: group_row_def)
qed

lemma groupby_filter_item:
  assumes "distinct (map item rows)" and "r \<in> set rows" and "row_key r = Some k0"
  shows "filter (\<lambda>x. item x = item r) (groupby_agg rows) = [r]"
proof -
  let ?keys = "sort (remdups (List.map_filter row_key rows))"
  have d: "distinct ?keys" by simp
  have m: "k0 \<in> set ?keys" using assms(2,3) by (auto simp: map_filter_set)
  have item_k0: "fst k0 = item r"
    using assms(3) row_key_SomeD [of r "fst k0" "fst (snd k0)" "fst (snd (snd k0))" "snd (snd (snd k0))"]
    by simp
  have f: "filter (\<lambda>k. fst k = item r) ?keys = [k0]"
  proof (rule filter_single [OF d m])
    fix k assume "k \<in> set ?keys"
    then obtain y where y: "y \<in> set rows" and k: "row_key y = Some k"
      by (auto simp: map_filter_set)
    have item_k: "fst k = item y"
      using k row_key_SomeD [of y "fst k" "fst (snd k)" "fst (snd (snd k))" "snd (snd (snd k))"]
      by simp
    show "fst k = item r \<longleftrightarrow> k = k0"
    proof
      assume "fst k = item r"
      with item_k have "item y = item r" by simp
      with assms(1,2) y have "y = r" by (rule same_item_same_row)
      with k assms(3) show "k = k0" by simp
    next
      assume "k = k0"
      with item_k0 show "fst k = item r" by simp
    qed
  qed
  have "filter (\<lambda>x. item x = item r) (groupby_agg rows) =
      map (group_row rows) (filter (\<lambda>k. fst k = item r) ?keys)"
    by (simp add: groupby_agg_def filter_map o_def group_row_item)
  also have "\<dots> = [r]"
    unfolding f using group_row_single [OF assms] by simp
  finally show ?thesis .
qed

text \<open>
  Claim C9, as amended. Let a label be on a fixture with a positive quantity in the
  template of a room with a positive count, and let the resolver find no catalog item
  for it. Then the BOQ has exactly one row named after the label with the suffix
  \<open>(user)\<close>; its unit is \<open>each\<close>, its unit price and cost are 0, its phase is \<open>Misc\<close>,
  and its quantity is the sum, over the rooms with a positive count, of the positive
  quantities of the fixtures with that label times the room count.
\<close>

theorem placeholder_row_synthesized:
  assumes "find_match (item_lookup (map m_item materials_df)) label = None"
    and "label_counted counts templates label"
  shows "filter (\<lambda>r. item r = label @ '' (user)'')
           (build_boq counts templates materials_df quality_multiplier location_multiplier) =
         [placeholder_row label (placeholder_qty counts templates label)]"
proof -
  let ?mat = "scale_materials quality_multiplier location_multiplier materials_df"
  let ?qm = "qty_map_of counts templates ?mat"
  let ?rows = "map (make_row ?mat) ?qm"
  let ?K = "label @ '' (user)''"
  let ?r = "placeholder_row label (placeholder_qty counts templates label)"
  have items: "map s_item ?mat = map m_item materials_df"
    by (simp add: scale_materials_def scale_row_def)
  from assms(1) have un: "find_match (item_lookup (map s_item ?mat)) label = None"
    by (simp only: items)
  from qty_map_of_placeholder [OF un assms(2)]
  have mem: "(?K, placeholder_qty counts templates label) \<in> set ?qm" .
  from unmatched_not_item [OF un] have "?K \<notin> s_item ` set ?mat"
    by simp
  then have "make_row ?mat (?K, placeholder_qty counts templates label) = ?r"
    by (rule make_row_placeholder)
  with mem have r: "?r \<in> set ?rows"
    by force
  have d: "distinct (map item ?rows)"
    by (simp only: rows_items qty_map_of_distinct)
  from r have ne: "?rows \<noteq> []" by auto
  have K: "item ?r = ?K" by (simp add: placeholder_row_def)
  have key: "row_key ?r = Some (?K, ''each'', 0, ''Misc'')"
    by (simp add: row_key_def placeholder_row_def)
  from ne have "build_boq counts templates materials_df quality_multiplier location_multiplier =
      groupby_agg ?rows"
    by (simp add: build_boq_def Let_def)
  with groupby_filter_item [OF d r key] K show ?thesis
    by simp
qed

theorem placeholder_row_synthesized_witness:
  "find_match (item_lookup (map m_item [cement])) ''Jacuzzi'' = None \<and>
   label_counted [(''Bedroom'', 2)] [bedroom] ''Jacuzzi'' \<and>
   filter (\<lambda>r. item r = ''Jacuzzi (user)'') (build_boq [(''Bedroom'', 2)] [bedroom] [cement] 1 1) =
     [\<lparr>item = ''Jacuzzi (user)'', unit = Some ''each'', total_qty = 2, unit_price = 0,
       total_cost = 0, phase = Some ''Misc''\<rparr>]"
proof -
  have a: "find_match (item_lookup (map m_item [cement])) ''Jacuzzi'' = None"
    by (simp add: find_match_def item_lookup_def cement_def lower_def lower_char_def
        FIXTURE_ITEM_MAP_def)
  have b: "label_counted [(''Bedroom'', 2)] [bedroom] ''Jacuzzi''"
    by (simp add: label_counted_def room_fixtures_def bedroom_def)
  have c: "placeholder_row ''Jacuzzi'' (placeholder_qty [(''Bedroom'', 2)] [bedroom] ''Jacuzzi'') =
      \<lparr>item = ''Jacuzzi (user)'', unit = Some ''each'', total_qty = 2, unit_price = 0,
       total_cost = 0, phase = Some ''Misc''\<rparr>"
    by (simp add: placeholder_row_def placeholder_qty_def fixture_contribution_def
        room_fixtures_def bedroom_def)
  from placeholder_row_synthesized [OF a b, of 1 1] a b c show ?thesis
    by simp
qed

text \<open>
  Claim C9 as stated fails for a fixture whose quantity is 0: the loop skips it, and the
  BOQ has no row for its label although the room is counted and the label is unmatched.
\<close>

theorem placeholder_zero_quantity_counterexample:
  "find_match (item_lookup (map m_item [cement])) ''Jacuzzi'' = None \<and>
   room_fixtures [spare_room] ''Spare'' = [(''Jacuzzi'', 0)] \<and>
   map item (build_boq [(''Spare'', 1)] [spare_room] [cement] 1 1) = [''Cement (50kg bag)'']"
  by (simp add: find_match_def item_lookup_def cement_def lower_def lower_char_def
      FIXTURE_ITEM_MAP_def room_fixtures_def spare_room_def build_boq_def scale_materials_def
      scale_row_def fillna_def to_numeric_def qty_map_of_def seed_qty_map_def total_area_def
      room_area_def room_step_def fixture_step_def make_row_def groupby_agg_def group_row_def
      row_key_def)

end
